theory Spec2Isabelle
  imports Main "HOL-Library.AList" "HOL-Library.Sublist"
begin

section \<open>The dual-buffer reconciler (utils.ts, calculateTree)\<close>

text \<open>
  A resolved view reference is an opaque value that the code compares by identity
  (\<^verbatim>\<open>!==\<close>); it is modelled by the name of the function. \<open>NoComponent\<close> is the value
  in the place of a component when resolution finds none (\<^verbatim>\<open>undefined\<close>, for a module
  without the export asked for).
\<close>

datatype component = Component string | NoComponent

text \<open>
  A JavaScript record of strings (\<^verbatim>\<open>Record<string, string>\<close>) is an association list in
  insertion order: assigning to a key that exists keeps its position, assigning to a new
  key appends it (\<open>AList.update\<close>); the matcher can also store \<^verbatim>\<open>undefined\<close>, which is
  \<open>None\<close>, under a key. This is the order of \<^verbatim>\<open>Object.keys\<close> and of \<^verbatim>\<open>for ... in\<close> for keys
  that are not array indices.
\<close>

type_synonym params = "(string \<times> string option) list"

text \<open>
  \<^verbatim>\<open>params[name]\<close> for the record of the matcher, an object whose prototype is
  \<^verbatim>\<open>Object.prototype\<close>: the string or \<^verbatim>\<open>undefined\<close> of an own key, and for a name that is
  no own key what the object inherits, which is \<^verbatim>\<open>undefined\<close> but for the names that
  \<^verbatim>\<open>Object.prototype\<close> defines (its methods, and the accessor \<^verbatim>\<open>__proto__\<close>). For these
  the value is a function or an object of the prototype, given here by its name.
\<close>

datatype pvalue = Str string | Undef | Inherited string

definition object_prototype :: "string list" where
  "object_prototype =
     [''constructor'', ''hasOwnProperty'', ''isPrototypeOf'', ''propertyIsEnumerable'',
      ''toLocaleString'', ''toString'', ''valueOf'', ''__proto__'', ''__defineGetter__'',
      ''__defineSetter__'', ''__lookupGetter__'', ''__lookupSetter__'']"

definition get_param :: "params \<Rightarrow> string \<Rightarrow> pvalue" where
  "get_param ps k =
     (case map_of ps k of
        Some (Some v) \<Rightarrow> Str v
      | Some None \<Rightarrow> Undef
      | None \<Rightarrow> if k \<in> set object_prototype then Inherited k else Undef)"

text \<open>\<^verbatim>\<open>Object.fromEntries(entries)\<close>: a later entry overwrites an earlier one of its key.\<close>

definition fromEntries :: "(string \<times> pvalue) list \<Rightarrow> (string \<times> pvalue) list" where
  "fromEntries es = foldl (\<lambda>obj (k, v). AList.update k v obj) [] es"

text \<open>
  The \<^verbatim>\<open>params\<close> field of a tree node: absent for a plain component, \<^verbatim>\<open>false\<close> for an
  array item whose options have no \<^verbatim>\<open>params\<close> key, and otherwise the object that
  \<^verbatim>\<open>Object.fromEntries\<close> has just built. A key is a number that starts at 0 and is only
  ever incremented by one: an integer.
\<close>

datatype node_params = NoParams | FalseParams | ParamsObject "(string \<times> pvalue) list"

record node =
  node_C :: component
  node_key :: int
  node_params :: node_params

record tree =
  tree_a :: "node list"
  tree_b :: "node list"
  tree_eq :: int

datatype buffer = BufA | BufB

text \<open>The two transitional cycle values, the only ones \<^verbatim>\<open>calculateTree\<close> accepts.\<close>

datatype direction = AB | BA

text \<open>
  \<^verbatim>\<open>let [afterCycle, beforeCycle] = cycle.split('')\<close>: the first letter is the buffer
  that is rebuilt, the second the buffer that is kept.
\<close>

fun afterCycle :: "direction \<Rightarrow> buffer" where
  "afterCycle AB = BufA"
| "afterCycle BA = BufB"

fun beforeCycle :: "direction \<Rightarrow> buffer" where
  "beforeCycle AB = BufB"
| "beforeCycle BA = BufA"

fun buf :: "tree \<Rightarrow> buffer \<Rightarrow> node list" where
  "buf t BufA = tree_a t"
| "buf t BufB = tree_b t"

fun set_buf :: "buffer \<Rightarrow> node list \<Rightarrow> tree \<Rightarrow> tree" where
  "set_buf BufA ns t = t\<lparr>tree_a := ns\<rparr>"
| "set_buf BufB ns t = t\<lparr>tree_b := ns\<rparr>"

text \<open>
  The options of an array item \<^verbatim>\<open>[component, {submodule?, params?}]\<close>; \<open>None\<close> is a key
  that is not in the object.
\<close>

record opts =
  submodule :: "string option"
  opt_params :: "string list option"

datatype resolved = Plain component | WithOpts component opts

text \<open>\<^verbatim>\<open>keys[idx] ?? 0\<close>\<close>

definition key_at :: "int list \<Rightarrow> nat \<Rightarrow> int" where
  "key_at keys idx = (if idx < length keys then keys ! idx else 0)"

fun make_node :: "int list \<Rightarrow> params \<Rightarrow> nat \<Rightarrow> resolved \<Rightarrow> node" where
  "make_node keys ps idx (WithOpts c os) =
     \<lparr>node_C = c, node_key = key_at keys idx,
      node_params = (case opt_params os of
                       None \<Rightarrow> FalseParams
                     | Some names \<Rightarrow>
                         ParamsObject (fromEntries (map (\<lambda>p. (p, get_param ps p)) names)))\<rparr>"
| "make_node keys ps idx (Plain c) =
     \<lparr>node_C = c, node_key = key_at keys idx, node_params = NoParams\<rparr>"

text \<open>\<^verbatim>\<open>next.map((item, idx) => ...)\<close>, the index counted from \<open>idx\<close>.\<close>

fun map_nodes :: "int list \<Rightarrow> params \<Rightarrow> nat \<Rightarrow> resolved list \<Rightarrow> node list" where
  "map_nodes keys ps idx [] = []"
| "map_nodes keys ps idx (item # items) =
     make_node keys ps idx item # map_nodes keys ps (Suc idx) items"

text \<open>
  \<^verbatim>\<open>x.params !== y.params\<close> for a node \<open>x\<close> of the kept buffer and a node \<open>y\<close> built
  by this call. Objects are compared by reference, and an object of \<open>y\<close> was created by
  this call, so it is never the object \<open>x\<close> holds: the two are the same value only when
  both are \<^verbatim>\<open>undefined\<close> or both are \<^verbatim>\<open>false\<close>.
\<close>

fun params_differ :: "node_params \<Rightarrow> node_params \<Rightarrow> bool" where
  "params_differ NoParams NoParams = False"
| "params_differ FalseParams FalseParams = False"
| "params_differ _ _ = True"

definition bump :: "node \<Rightarrow> node" where
  "bump n = n\<lparr>node_key := node_key n + 1\<rparr>"

text \<open>
  The first loop, entered with \<open>i\<close> already incremented:
  \<^verbatim>\<open>while (++i < max) { if (differ) { t[afterCycle][i].key++; i++; break }; t.eq = i }\<close>.
  It returns \<open>i\<close>, the rebuilt buffer and \<open>eq\<close>.
\<close>

function scan_eq :: "nat \<Rightarrow> nat \<Rightarrow> node list \<Rightarrow> node list \<Rightarrow> int \<Rightarrow> nat \<times> node list \<times> int" where
  "scan_eq i mx bef aft e =
     (if i < mx then
        if node_C (bef ! i) \<noteq> node_C (aft ! i)
           \<or> params_differ (node_params (bef ! i)) (node_params (aft ! i))
        then (Suc i, aft[i := bump (aft ! i)], e)
        else scan_eq (Suc i) mx bef aft (int i)
      else (i, aft, e))"
  by pat_completeness auto
termination
  by (relation "measure (\<lambda>(i, mx, bef, aft, e). mx - i)") auto

declare scan_eq.simps [simp del]

text \<open>
  The second loop, \<^verbatim>\<open>i--; while (++i < t[afterCycle].length) t[afterCycle][i].key++\<close>,
  entered at the \<open>i\<close> the first loop left.
\<close>

function bump_rest :: "nat \<Rightarrow> node list \<Rightarrow> node list" where
  "bump_rest i aft =
     (if i < length aft then bump_rest (Suc i) (aft[i := bump (aft ! i)]) else aft)"
  by pat_completeness auto
termination
  by (relation "measure (\<lambda>(i, aft). length aft - i)") auto

declare bump_rest.simps [simp del]

text \<open>
  The registry of mounted instances, \<^verbatim>\<open>mountedComponents\<close>: the key
  \<^verbatim>\<open>`${idx} ${key}`\<close> is the pair of the depth and the key. An entry is either the empty
  object that \<^verbatim>\<open>calculateTree\<close> stores or an instance the rendering layer has bound.
\<close>

datatype mounted = EmptyEntry | Bound string

type_synonym registry = "((nat \<times> int) \<times> mounted) list"

fun register :: "nat \<Rightarrow> node list \<Rightarrow> registry \<Rightarrow> registry" where
  "register idx [] reg = reg"
| "register idx (n # ns) reg =
     register (Suc idx) ns (AList.update (idx, node_key n) EmptyEntry reg)"

text \<open>
  \<^verbatim>\<open>calculateTree({ prev, next, cycle, params })\<close>; the registry it writes to is passed
  in and returned.
\<close>

definition calculateTree ::
  "tree \<Rightarrow> resolved list \<Rightarrow> direction \<Rightarrow> params \<Rightarrow> registry \<Rightarrow> tree \<times> registry" where
  "calculateTree prev nxt cyc ps reg =
     (let keys = map node_key (buf prev (beforeCycle cyc));
          t = set_buf (afterCycle cyc) (map_nodes keys ps 0 nxt)
                (set_buf (beforeCycle cyc) (buf prev (beforeCycle cyc))
                   \<lparr>tree_a = [], tree_b = [], tree_eq = -1\<rparr>);
          mx = min (length (tree_a t)) (length (tree_b t));
          (i, aft, e) = scan_eq 0 mx (buf t (beforeCycle cyc)) (buf t (afterCycle cyc)) (tree_eq t);
          aft' = bump_rest i aft;
          t' = set_buf (afterCycle cyc) aft' (t\<lparr>tree_eq := e\<rparr>)
      in (t', register 0 aft' reg))"

text \<open>The initial tree of \<^verbatim>\<open>create.svelte.ts\<close>: \<^verbatim>\<open>{ a: [], b: [], eq: 0 }\<close>.\<close>

definition componentTree_init :: tree where
  "componentTree_init = \<lparr>tree_a = [], tree_b = [], tree_eq = 0\<rparr>"

section \<open>Strings and arrays of JavaScript\<close>

text \<open>
  A string is the list of its code units. The operations below are the ones the source
  calls, on the arguments it calls them with.
\<close>

definition startsWith :: "string \<Rightarrow> string \<Rightarrow> bool" where
  "startsWith s p = prefix p s"

definition endsWith :: "string \<Rightarrow> string \<Rightarrow> bool" where
  "endsWith s p = prefix (rev p) (rev s)"

text \<open>\<^verbatim>\<open>s.includes(c)\<close> for a one-character string \<open>c\<close>.\<close>

definition includesChar :: "string \<Rightarrow> char \<Rightarrow> bool" where
  "includesChar s c = (c \<in> set s)"

text \<open>\<^verbatim>\<open>s.split(c)\<close> for a one-character separator: never the empty array.\<close>

fun splitOn :: "char \<Rightarrow> string \<Rightarrow> string list" where
  "splitOn c [] = [[]]"
| "splitOn c (x # xs) =
     (if x = c then [] # splitOn c xs
      else (case splitOn c xs of
              [] \<Rightarrow> [[x]]
            | p # ps \<Rightarrow> (x # p) # ps))"

text \<open>\<^verbatim>\<open>parts.join(sep)\<close>\<close>

fun joinWith :: "string \<Rightarrow> string list \<Rightarrow> string" where
  "joinWith sep [] = []"
| "joinWith sep [p] = p"
| "joinWith sep (p # q # ps) = p @ sep @ joinWith sep (q # ps)"

text \<open>\<^verbatim>\<open>xs[i]\<close>, which is \<^verbatim>\<open>undefined\<close> out of range.\<close>

definition at :: "'a list \<Rightarrow> nat \<Rightarrow> 'a option" where
  "at xs i = (if i < length xs then Some (xs ! i) else None)"

section \<open>The priority sorter (utils.ts, sortViews and getViewPriority)\<close>

definition getViewPriority :: "string \<Rightarrow> nat" where
  "getViewPriority view =
     (if view = '''' \<or> view = ''/'' then 1
      else if startsWith view ''*'' then 4
      else if includesChar view CHR '':'' then 3
      else 2)"

text \<open>
  \<^verbatim>\<open>views.toSorted((a, b) => getViewPriority(a) - getViewPriority(b))\<close>:
  \<^verbatim>\<open>toSorted\<close> is a stable sort, and so is \<open>sort_key\<close>.
\<close>

definition sortViews :: "string list \<Rightarrow> string list" where
  "sortViews views = sort_key getViewPriority views"

section \<open>The path matcher (utils.ts, matchView)\<close>

text \<open>
  A function value of the route table: a named function (a fully imported component, or
  a hook) or a lazy import \<^verbatim>\<open>() => import(...)\<close>, a function that returns a module, the
  record of its exports (export name, function name).
\<close>

datatype fn = Function string | LazyImport "(string \<times> string) list"

text \<open>
  The values a route table holds: a function (\<^verbatim>\<open>typeof v === 'function'\<close>), the array form
  \<^verbatim>\<open>[view, {submodule?, params?}]\<close> (\<^verbatim>\<open>Array.isArray(v)\<close>), an object (a nested table, or
  the record of hooks under the key \<^verbatim>\<open>hooks\<close>) and \<^verbatim>\<open>undefined\<close>. An object is the list of
  its entries in the order of \<^verbatim>\<open>Object.keys\<close>, each key once; the reserved keys
  \<^verbatim>\<open>layout\<close> and \<^verbatim>\<open>hooks\<close> are entries like the others, as they are for \<^verbatim>\<open>Object.keys\<close>.
\<close>

datatype jsval = Undefined | Fn fn | Arr fn opts | Obj "(string \<times> jsval) list"

type_synonym table = "(string \<times> jsval) list"

text \<open>\<^verbatim>\<open>views[key]\<close>\<close>

definition lookup :: "table \<Rightarrow> string \<Rightarrow> jsval" where
  "lookup views k = (case map_of views k of None \<Rightarrow> Undefined | Some v \<Rightarrow> v)"

fun truthy :: "jsval \<Rightarrow> bool" where
  "truthy Undefined = False"
| "truthy _ = True"

record mstate =
  match :: jsval
  layouts :: "jsval list"
  hooks :: "jsval list"
  params :: params
  breakFromLayouts :: bool

definition mstate_init :: mstate where
  "mstate_init = \<lparr>match = Undefined, layouts = [], hooks = [], params = [], breakFromLayouts = False\<rparr>"

datatype error = TypeError | ViewsEmpty | StillRendering

text \<open>
  How the scan of one candidate's segments ends: the inner \<^verbatim>\<open>break\<close>, \<^verbatim>\<open>break outer\<close>
  at a wildcard, the last segment passed (the code after \<^verbatim>\<open>if (index !== viewParts.length - 1) continue\<close>
  runs, with this index), or no segment at all.
\<close>

datatype scan = Break | BreakOuter | Last nat | NoParts

text \<open>
  \<^verbatim>\<open>if ('layout' in views && views.layout) layouts.push(views.layout)\<close>
\<close>

definition push_layout :: "table \<Rightarrow> mstate \<Rightarrow> mstate" where
  "push_layout views st =
     (if truthy (lookup views ''layout'') then st\<lparr>layouts := layouts st @ [lookup views ''layout'']\<rparr>
      else st)"

definition push_hooks :: "table \<Rightarrow> mstate \<Rightarrow> mstate" where
  "push_hooks views st =
     (if truthy (lookup views ''hooks'') then st\<lparr>hooks := hooks st @ [lookup views ''hooks'']\<rparr>
      else st)"

text \<open>
  \<^verbatim>\<open>params[k] = v\<close> on the record \<^verbatim>\<open>params\<close>, which starts as the object literal \<^verbatim>\<open>{}\<close>
  and gets a string or \<^verbatim>\<open>undefined\<close>: an own property is made or overwritten, but for the
  key \<^verbatim>\<open>__proto__\<close> the assignment goes to the setter that \<^verbatim>\<open>Object.prototype\<close> has
  under that name, which ignores a value that is not an object, and the record stays as
  it is.
\<close>

definition assign :: "string \<Rightarrow> string option \<Rightarrow> params \<Rightarrow> params" where
  "assign k v ps = (if k = ''__proto__'' then ps else AList.update k v ps)"

text \<open>
  The inner loop \<^verbatim>\<open>for (let [index, viewPart] of viewParts.entries())\<close> up to the point
  where it leaves the segments: \<open>todo\<close> is what is left of \<open>viewParts\<close> from \<open>index\<close> on.
\<close>

fun scan_parts ::
  "table \<Rightarrow> string list \<Rightarrow> string list \<Rightarrow> nat \<Rightarrow> string list \<Rightarrow> mstate \<Rightarrow> scan \<times> mstate" where
  "scan_parts views pathParts viewParts index [] st = (NoParts, st)"
| "scan_parts views pathParts viewParts index (part # todo) st =
     (let brk = (startsWith part ''('' \<and> endsWith part '')'');
          st1 = st\<lparr>breakFromLayouts := brk\<rparr>;
          viewPart = (if brk then butlast (tl part) else part);
          pathPart = at pathParts index;
          continue = (\<lambda>st'. if todo \<noteq> [] then scan_parts views pathParts viewParts (Suc index) todo st'
                           else (Last index, st'))
      in if startsWith viewPart '':'' then
           continue (st1\<lparr>params := assign (tl viewPart) pathPart (params st1)\<rparr>)
         else if startsWith viewPart ''*'' then
           (let param = tl viewPart;
                st2 = (if param \<noteq> []
                       then st1\<lparr>params := assign param (Some (joinWith ''/'' (drop index pathParts))) (params st1)\<rparr>
                       else st1);
                st3 = (if brk then st2 else push_layout views st2);
                resolvedPath = (if index \<noteq> 0 then ''/'' else '''') @ joinWith ''/'' viewParts
            in (BreakOuter, st3\<lparr>match := lookup views resolvedPath\<rparr>))
         else if Some viewPart \<noteq> pathPart then (Break, st1)
         else continue st1)"

text \<open>
  \<^verbatim>\<open>const viewParts = view.split('/'); if (viewParts[0] === '') viewParts.shift()\<close>
\<close>

definition view_parts :: "string \<Rightarrow> string list" where
  "view_parts view = (let viewParts = splitOn CHR ''/'' view in
                      if hd viewParts = '''' then tl viewParts else viewParts)"

text \<open>
  The head of \<^verbatim>\<open>matchView\<close>: the trailing slash is removed, and
  \<^verbatim>\<open>pathParts = pathname.split('/').slice(1)\<close>.
\<close>

definition path_parts :: "string \<Rightarrow> string list" where
  "path_parts pathname =
     (let pathname' = (if length pathname > 1 \<and> endsWith pathname ''/'' then butlast pathname
                       else pathname)
      in drop 1 (splitOn CHR ''/'' pathname'))"

text \<open>
  What the caller does with the result of the nested call:
  \<^verbatim>\<open>match = result.match; params = { ...params, ...result.params };
  hooks.push(...result.hooks); if (result.breakFromLayouts) layouts = [] else layouts.push(...result.layouts)\<close>
\<close>

definition merge_result :: "mstate \<Rightarrow> mstate \<Rightarrow> mstate" where
  "merge_result st result =
     st\<lparr>match := match result,
        params := foldl (\<lambda>obj (k, v). AList.update k v obj) (params st) (params result),
        hooks := hooks st @ hooks result,
        layouts := (if breakFromLayouts result then [] else layouts st @ layouts result)\<rparr>"

lemma size_lookup:
  "lookup views k = Obj nested \<Longrightarrow>
   size_list (size_prod (\<lambda>_. 0) size) nested < size_list (size_prod (\<lambda>_. 0) size) views"
  by (induction views) (auto simp: lookup_def split: if_splits option.splits)

text \<open>
  The outer loop \<^verbatim>\<open>outer: for (const view of allViews)\<close> over the candidates that are
  left. The recursive call \<^verbatim>\<open>matchView(nestedPathname, viewMatch)\<close> is the same loop on
  the nested table, from the initial state; \<^verbatim>\<open>Object.keys\<close> of \<^verbatim>\<open>undefined\<close> throws.
\<close>

function scan_views :: "table \<Rightarrow> string list \<Rightarrow> string list \<Rightarrow> mstate \<Rightarrow> error + mstate" where
  "scan_views views pathParts [] st = Inr st"
| "scan_views views pathParts (view # allViews) st =
     (let viewParts = view_parts view in
      case scan_parts views pathParts viewParts 0 viewParts st of
        (NoParts, st1) \<Rightarrow> scan_views views pathParts allViews st1
      | (Break, st1) \<Rightarrow> scan_views views pathParts allViews st1
      | (BreakOuter, st1) \<Rightarrow> Inr st1
      | (Last index, st1) \<Rightarrow>
          (let viewMatch = lookup views (''/'' @ joinWith ''/'' viewParts);
               st2 = (if \<not> breakFromLayouts st1 then push_layout views st1 else st1);
               st3 = push_hooks views st2
           in case viewMatch of
                Fn f \<Rightarrow>
                  if length viewParts = length pathParts then Inr (st3\<lparr>match := viewMatch\<rparr>)
                  else scan_views views pathParts allViews st3
              | Arr f os \<Rightarrow>
                  if length viewParts = length pathParts then Inr (st3\<lparr>match := viewMatch\<rparr>)
                  else scan_views views pathParts allViews st3
              | Undefined \<Rightarrow> Inl TypeError
              | Obj nested \<Rightarrow>
                  (let nestedPathname = ''/'' @ joinWith ''/'' (drop (index + 1) pathParts) in
                   case scan_views nested (path_parts nestedPathname)
                          (sortViews (map fst nested)) mstate_init of
                     Inl e \<Rightarrow> Inl e
                   | Inr result \<Rightarrow> Inr (merge_result st3 result))))"
  by pat_completeness auto
termination
  by (relation "measures [\<lambda>(views, pathParts, allViews, st). size_list (size_prod (\<lambda>_. 0) size) views,
                          \<lambda>(views, pathParts, allViews, st). length allViews]")
     (auto simp: size_lookup)

declare scan_views.simps [simp del]

definition matchView :: "string \<Rightarrow> table \<Rightarrow> error + mstate" where
  "matchView pathname views =
     scan_views views (path_parts pathname) (sortViews (map fst views)) mstate_init"

section \<open>Path construction and the active-path matcher (utils.ts)\<close>

text \<open>
  \<^verbatim>\<open>s.indexOf(pat)\<close> as the text before and after the first occurrence of \<open>pat\<close>.
\<close>

fun split_at_first :: "string \<Rightarrow> string \<Rightarrow> (string \<times> string) option" where
  "split_at_first pat [] = (if pat = [] then Some ([], []) else None)"
| "split_at_first pat (c # cs) =
     (if prefix pat (c # cs) then Some ([], drop (length pat) (c # cs))
      else map_option (\<lambda>(b, a). (c # b, a)) (split_at_first pat cs))"

text \<open>
  The replacement text of \<^verbatim>\<open>String.prototype.replace\<close> for a string pattern, which has
  no capture groups: \<^verbatim>\<open>$$\<close> is a dollar, \<^verbatim>\<open>$&\<close> the matched text, \<^verbatim>\<open>$\<close> with a backquote
  the text before the match, \<^verbatim>\<open>$'\<close> the text after it; any other dollar stands for
  itself.
\<close>

fun getSubstitution :: "string \<Rightarrow> string \<Rightarrow> string \<Rightarrow> string \<Rightarrow> string" where
  "getSubstitution matched pre post [] = []"
| "getSubstitution matched pre post [c] = [c]"
| "getSubstitution matched pre post (c # d # rest) =
     (if c \<noteq> CHR ''$'' then c # getSubstitution matched pre post (d # rest)
      else if d = CHR ''$'' then CHR ''$'' # getSubstitution matched pre post rest
      else if d = CHR ''&'' then matched @ getSubstitution matched pre post rest
      else if d = CHR 0x60 then pre @ getSubstitution matched pre post rest
      else if d = CHR 0x27 then post @ getSubstitution matched pre post rest
      else c # getSubstitution matched pre post (d # rest))"

text \<open>\<^verbatim>\<open>s.replace(pat, replacement)\<close> for strings \<open>pat\<close> and \<open>replacement\<close>.\<close>

definition replace :: "string \<Rightarrow> string \<Rightarrow> string \<Rightarrow> string" where
  "replace s pat replacement =
     (case split_at_first pat s of
        None \<Rightarrow> s
      | Some (pre, post) \<Rightarrow> pre @ getSubstitution pat pre post replacement @ post)"

text \<open>
  \<^verbatim>\<open>constructPath(path, params)\<close>: \<open>None\<close> is a call without \<^verbatim>\<open>params\<close>; the loop
  \<^verbatim>\<open>for (const key in params)\<close> visits the keys in insertion order.
\<close>

definition constructPath :: "string \<Rightarrow> (string \<times> string) list option \<Rightarrow> string" where
  "constructPath path ps =
     (case ps of
        None \<Rightarrow> path
      | Some kvs \<Rightarrow> foldl (\<lambda>result (key, v). replace result (CHR '':'' # key) v) path kvs)"

text \<open>
  \<^verbatim>\<open>join(...parts)\<close> of utils.ts: a slash before each part that has none, and the
  trailing slash of a part removed.
\<close>

definition join :: "string list \<Rightarrow> string" where
  "join parts =
     foldl (\<lambda>result part.
              (if \<not> startsWith part ''/'' then result @ ''/'' else result)
              @ (if endsWith part ''/'' then butlast part else part))
       [] parts"

text \<open>The two comparison functions that \<^verbatim>\<open>isActive\<close> and \<^verbatim>\<open>isActive.startsWith\<close> pass.\<close>

datatype compareFn = Equality | Prefix

fun apply_compareFn :: "compareFn \<Rightarrow> string \<Rightarrow> string \<Rightarrow> bool" where
  "apply_compareFn Equality x y = (x = y)"
| "apply_compareFn Prefix x y = startsWith x y"

text \<open>
  The loop of \<^verbatim>\<open>compare\<close>, over the parts of the pattern that are left (in the source
  \<open>pathParts\<close> is the split pattern and \<open>viewParts\<close> the split location):
  \<^verbatim>\<open>const viewPart = viewParts[index]; if (viewPart!.startsWith(':')) continue;
  return compareFn(pathPart, viewPart!)\<close>. Calling \<^verbatim>\<open>startsWith\<close> on \<^verbatim>\<open>undefined\<close> throws.
\<close>

fun compare_loop :: "compareFn \<Rightarrow> string list \<Rightarrow> nat \<Rightarrow> string list \<Rightarrow> error + bool" where
  "compare_loop f viewParts index [] = Inr False"
| "compare_loop f viewParts index (pathPart # pathParts) =
     (case at viewParts index of
        None \<Rightarrow> Inl TypeError
      | Some viewPart \<Rightarrow>
          if startsWith viewPart '':'' then compare_loop f viewParts (Suc index) pathParts
          else Inr (apply_compareFn f pathPart viewPart))"

text \<open>
  \<^verbatim>\<open>compare(compareFn, pathname, params)\<close>; \<open>current\<close> is \<^verbatim>\<open>location.pathname\<close>, the
  pathname of the browser.
\<close>

definition compare ::
  "string \<Rightarrow> compareFn \<Rightarrow> string \<Rightarrow> (string \<times> string) list option \<Rightarrow> error + bool" where
  "compare current f pathname ps =
     (if \<not> includesChar pathname CHR '':'' then Inr (apply_compareFn f current pathname)
      else if ps \<noteq> None then Inr (apply_compareFn f current (constructPath pathname ps))
      else compare_loop f (drop 1 (splitOn CHR ''/'' current)) 0
             (drop 1 (splitOn CHR ''/'' pathname)))"

definition isActive :: "string \<Rightarrow> string \<Rightarrow> (string \<times> string) list option \<Rightarrow> error + bool" where
  "isActive current pathname ps = compare current Equality pathname ps"

definition isActive_startsWith ::
  "string \<Rightarrow> string \<Rightarrow> (string \<times> string) list option \<Rightarrow> error + bool" where
  "isActive_startsWith current pathname ps = compare current Prefix pathname ps"

section \<open>The navigation controller (create.svelte.ts)\<close>

text \<open>
  The cycle is \<^verbatim>\<open>'a'\<close> or \<^verbatim>\<open>'b'\<close> (stable) or \<^verbatim>\<open>'ab'\<close> or \<^verbatim>\<open>'ba'\<close> (transitional).
\<close>

datatype cycle = Stable buffer | Transitional direction

datatype phase = Idle | BeforeLoad | DuringLoad | DuringRender | AfterRender

text \<open>
  A history state is the string a caller passed in \<^verbatim>\<open>options.state\<close>, or \<open>None\<close> for
  anything else (\<^verbatim>\<open>{}\<close>, \<^verbatim>\<open>null\<close>).
\<close>

record location =
  loc_pathname :: string
  loc_search :: string
  loc_state :: "string option"
  loc_hash :: string

datatype scroll = ScrollUndefined | ScrollBehavior string | ScrollFalse

datatype browser_call =
    PushState "string option" string
  | ReplaceState "string option" string
  | Go int
  | ScrollTo scroll

text \<open>
  The browser: \<^verbatim>\<open>globalThis.location\<close> with \<^verbatim>\<open>history.state\<close>, and the calls made to
  \<^verbatim>\<open>history\<close> and \<^verbatim>\<open>window.scrollTo\<close>, in order.
\<close>

record browser =
  url :: location
  calls :: "browser_call list"

record nav_state =
  componentTree :: tree
  cycle :: cycle
  params_value :: params
  phase :: phase
  location :: location
  isRendering :: bool
  navigationIndex :: nat
  pendingNavigationIndex :: nat
  mountedComponents :: registry
  firstBoot :: bool
  searchParams :: string
  browser :: browser

text \<open>
  The initial values of the module's variables, for a browser \<open>b\<close>:
  \<^verbatim>\<open>location = $state(updatedLocation())\<close>, and the search parameters read from the URL,
  serialised by \<open>ser\<close>.
\<close>

definition nav_init :: "(string \<Rightarrow> string) \<Rightarrow> browser \<Rightarrow> nav_state" where
  "nav_init ser b =
     \<lparr>componentTree = componentTree_init, cycle = Stable BufA, params_value = [],
      phase = Idle, location = url b, isRendering = False, navigationIndex = 0,
      pendingNavigationIndex = 0, mountedComponents = [], firstBoot = True,
      searchParams = ser (loc_search (url b)), browser = b\<rparr>"

record options =
  o_hash :: "string option"
  o_replace :: bool
  o_scrollToTop :: scroll
  o_search :: "string option"
  o_state :: "string option"
  o_bypass :: bool

text \<open>What a hook is called with.\<close>

datatype hook_args =
    BeforeLoadArgs jsval params
  | RenderArgs cycle tree "component list \<times> component list" registry
      "(nat \<times> int) list \<times> (nat \<times> int) list"

datatype hook_result = Returns | Throws

text \<open>
  The environment of the controller. \<open>env_views\<close> is the module variable \<^verbatim>\<open>views\<close>
  (\<open>None\<close> before \<^verbatim>\<open>createView\<close>) and \<open>env_base\<close> is \<^verbatim>\<open>base.name\<close>. \<open>env_run\<close> is what the
  function of a given name does when it is called as a hook: it returns or throws, and
  it may change the state, as user code can. \<open>env_stack\<close> answers
  \<^verbatim>\<open>new Error().stack?.includes(name)\<close> at the two places that ask. \<open>env_url\<close> is the URL
  parser of the browser (the location that \<^verbatim>\<open>pushState\<close> gives for a URL string), and
  \<open>env_search\<close> is \<^verbatim>\<open>new URLSearchParams(search).toString()\<close>.
\<close>

record env =
  env_views :: "table option"
  env_base :: "string option"
  env_run :: "string \<Rightarrow> hook_args \<Rightarrow> nav_state \<Rightarrow> hook_result \<times> nav_state"
  env_stack :: "string \<Rightarrow> bool"
  env_url :: "location \<Rightarrow> string \<Rightarrow> string \<times> string \<times> string"
  env_search :: "string \<Rightarrow> string"

text \<open>
  \<^verbatim>\<open>resolveViewComponent\<close>: a lazy import is called and the export taken from its module
  (\<^verbatim>\<open>default\<close>, or the \<^verbatim>\<open>submodule\<close> of the array form); anything else resolves to
  itself.
\<close>

definition module_export :: "(string \<times> string) list \<Rightarrow> string \<Rightarrow> component" where
  "module_export m name = (case map_of m name of None \<Rightarrow> NoComponent | Some f \<Rightarrow> Component f)"

fun resolveViewComponent :: "jsval \<Rightarrow> resolved" where
  "resolveViewComponent (Fn (LazyImport m)) = Plain (module_export m ''default'')"
| "resolveViewComponent (Fn (Function f)) = Plain (Component f)"
| "resolveViewComponent (Arr (LazyImport m) os) =
     WithOpts (module_export m (case submodule os of None \<Rightarrow> ''default'' | Some sub \<Rightarrow> sub)) os"
| "resolveViewComponent (Arr (Function f) os) = WithOpts (Component f) os"
| "resolveViewComponent _ = Plain NoComponent"

definition resolveViewComponents :: "jsval list \<Rightarrow> resolved list" where
  "resolveViewComponents input = map resolveViewComponent input"

text \<open>
  \<^verbatim>\<open>getCompKeys(tree, cycle)\<close>: the pairs of depth and key after \<open>eq\<close>, \<open>in\<close> for the
  first letter of the cycle and \<open>out\<close> for the second, if there is one. The loops start
  at \<open>eq + 1\<close>, which is never negative for a tree of the controller.
\<close>

definition keys_from :: "int \<Rightarrow> node list \<Rightarrow> (nat \<times> int) list" where
  "keys_from e ns = map (\<lambda>i. (i, node_key (ns ! i))) (filter (\<lambda>i. e + 1 \<le> int i) [0..<length ns])"

fun getCompKeys :: "tree \<Rightarrow> cycle \<Rightarrow> (nat \<times> int) list \<times> (nat \<times> int) list" where
  "getCompKeys t (Stable l) = (keys_from (tree_eq t) (buf t l), [])"
| "getCompKeys t (Transitional d) =
     (keys_from (tree_eq t) (buf t (afterCycle d)), keys_from (tree_eq t) (buf t (beforeCycle d)))"

text \<open>\<^verbatim>\<open>filepathTree\<close>, derived from the tree.\<close>

definition filepathTree :: "tree \<Rightarrow> component list \<times> component list" where
  "filepathTree t = (map node_C (tree_a t), map node_C (tree_b t))"

definition render_args :: "nav_state \<Rightarrow> hook_args" where
  "render_args s =
     RenderArgs (cycle s) (componentTree s) (filepathTree (componentTree s))
       (mountedComponents s) (getCompKeys (componentTree s) (cycle s))"

text \<open>
  \<^verbatim>\<open>const { name } = hooksObject\<close>, and the optional call \<^verbatim>\<open>hook?.(args)\<close> inside
  \<^verbatim>\<open>try\<close>: nothing is called for \<^verbatim>\<open>undefined\<close>, a named function does what the
  environment says, a lazy import returns its module, and calling a value that is not
  a function throws.
\<close>

fun hook_prop :: "string \<Rightarrow> jsval \<Rightarrow> jsval" where
  "hook_prop name (Obj kvs) = lookup kvs name"
| "hook_prop name _ = Undefined"

fun call_hook :: "env \<Rightarrow> jsval \<Rightarrow> hook_args \<Rightarrow> nav_state \<Rightarrow> hook_result \<times> nav_state" where
  "call_hook e Undefined args s = (Returns, s)"
| "call_hook e (Fn (Function f)) args s = env_run e f args s"
| "call_hook e (Fn (LazyImport m)) args s = (Returns, s)"
| "call_hook e _ args s = (Throws, s)"

text \<open>
  \<^verbatim>\<open>for (const { beforeLoad } of hooks) { try { pendingNavigationIndex = currentNavigationIndex;
  await beforeLoad?.({ match, params: newParams }) } catch (err) { phase.value = 'idle'; return } }\<close>:
  the loop stops at the first hook that throws.
\<close>

fun beforeLoad_loop ::
  "env \<Rightarrow> nat \<Rightarrow> jsval \<Rightarrow> params \<Rightarrow> jsval list \<Rightarrow> nav_state \<Rightarrow> hook_result \<times> nav_state" where
  "beforeLoad_loop e cur m ps [] s = (Returns, s)"
| "beforeLoad_loop e cur m ps (h # hs) s =
     (case call_hook e (hook_prop ''beforeLoad'' h) (BeforeLoadArgs m ps)
             (s\<lparr>pendingNavigationIndex := cur\<rparr>) of
        (Throws, s') \<Rightarrow> (Throws, s')
      | (Returns, s') \<Rightarrow> beforeLoad_loop e cur m ps hs s')"

fun duringLoad_loop :: "env \<Rightarrow> nat \<Rightarrow> jsval list \<Rightarrow> nav_state \<Rightarrow> hook_result \<times> nav_state" where
  "duringLoad_loop e cur [] s = (Returns, s)"
| "duringLoad_loop e cur (h # hs) s =
     (let s1 = s\<lparr>pendingNavigationIndex := cur\<rparr> in
      case call_hook e (hook_prop ''duringLoad'' h) (render_args s1) s1 of
        (Throws, s') \<Rightarrow> (Throws, s')
      | (Returns, s') \<Rightarrow> duringLoad_loop e cur hs s')"

text \<open>The loops of \<^verbatim>\<open>duringRender\<close> and \<^verbatim>\<open>afterRender\<close>: a hook that throws is ignored.\<close>

fun render_loop :: "env \<Rightarrow> string \<Rightarrow> jsval list \<Rightarrow> nav_state \<Rightarrow> nav_state" where
  "render_loop e name [] s = s"
| "render_loop e name (h # hs) s =
     render_loop e name hs (snd (call_hook e (hook_prop name h) (render_args s) s))"

text \<open>
  \<^verbatim>\<open>cleanMountedComponents\<close>: an entry goes when its key is below the smaller of the keys
  the two buffers hold at its depth, a buffer without that depth counting as infinity.
\<close>

definition min_live :: "tree \<Rightarrow> nat \<Rightarrow> int option" where
  "min_live t depth =
     (case (at (tree_a t) depth, at (tree_b t) depth) of
        (None, None) \<Rightarrow> None
      | (Some x, None) \<Rightarrow> Some (node_key x)
      | (None, Some y) \<Rightarrow> Some (node_key y)
      | (Some x, Some y) \<Rightarrow> Some (min (node_key x) (node_key y)))"

definition cleanMountedComponents :: "nav_state \<Rightarrow> nav_state" where
  "cleanMountedComponents s =
     s\<lparr>mountedComponents :=
         filter (\<lambda>((depth, k), v). \<not> (case min_live (componentTree s) depth of
                                          None \<Rightarrow> True
                                        | Some m \<Rightarrow> k < m))
           (mountedComponents s)\<rparr>"

text \<open>A string is truthy when it is there and not empty.\<close>

fun truthy_string :: "string option \<Rightarrow> bool" where
  "truthy_string None = False"
| "truthy_string (Some x) = (x \<noteq> [])"

definition or_empty :: "string option \<Rightarrow> string" where
  "or_empty x = (if truthy_string x then the x else [])"

text \<open>\<^verbatim>\<open>globalThis.history[historyMethod](options.state || {}, '', to)\<close>\<close>

definition history_commit :: "env \<Rightarrow> bool \<Rightarrow> string option \<Rightarrow> string \<Rightarrow> browser \<Rightarrow> browser" where
  "history_commit e rep st to b =
     (let st' = (if truthy_string st then st else None);
          (p, q, h) = env_url e (url b) to
      in \<lparr>url = \<lparr>loc_pathname = p, loc_search = q, loc_state = st', loc_hash = h\<rparr>,
          calls = calls b @ [if rep then ReplaceState st' to else PushState st' to]\<rparr>)"

text \<open>
  The history and location step, from \<^verbatim>\<open>if (path) { ... }\<close> to the scroll:
  \<^verbatim>\<open>params.value = newParams || {}; syncSearchParams(); Object.assign(location, updatedLocation())\<close>.
\<close>

definition commit :: "env \<Rightarrow> string option \<Rightarrow> options \<Rightarrow> params \<Rightarrow> nav_state \<Rightarrow> nav_state" where
  "commit e path opts newParams s =
     (let b1 = (if truthy_string path then
                  (let path' = the path @ or_empty (o_search opts) @ or_empty (o_hash opts);
                       to = (if truthy_string (env_base e) then join [the (env_base e), path'] else path')
                   in history_commit e (o_replace opts) (o_state opts) to (browser s))
                else browser s);
          q = env_search e (loc_search (url b1));
          b2 = (if o_scrollToTop opts \<noteq> ScrollFalse
                then b1\<lparr>calls := calls b1 @ [ScrollTo (o_scrollToTop opts)]\<rparr> else b1)
      in s\<lparr>params_value := newParams,
           searchParams := (if searchParams s = q then searchParams s else q),
           location := url b1,
           browser := b2\<rparr>)"

text \<open>
  The phases after the commit: \<^verbatim>\<open>duringRender\<close>, the collapse of the cycle
  (\<^verbatim>\<open>cycle.value = cycle.value === 'ba' ? 'b' : 'a'\<close>) and \<^verbatim>\<open>afterRender\<close>.
\<close>

definition render_phases :: "env \<Rightarrow> jsval list \<Rightarrow> nav_state \<Rightarrow> nav_state" where
  "render_phases e hs s =
     (let s1 = render_loop e ''duringRender'' hs (s\<lparr>phase := DuringRender\<rparr>);
          s2 = s1\<lparr>cycle := (if cycle s1 = Transitional BA then Stable BufB else Stable BufA)\<rparr>
      in render_loop e ''afterRender'' hs (s2\<lparr>phase := AfterRender\<rparr>))"

text \<open>\<^verbatim>\<open>phase.value = 'idle'; cleanMountedComponents()\<close>\<close>

definition finish :: "nav_state \<Rightarrow> nav_state" where
  "finish s = cleanMountedComponents (s\<lparr>phase := Idle\<rparr>)"

text \<open>
  The \<^verbatim>\<open>return\<close> statement that ends a call of \<^verbatim>\<open>onNavigate\<close> (for \<open>HistoryGo\<close>, the one
  of \<^verbatim>\<open>navigate\<close> after \<^verbatim>\<open>history.go\<close>), or what the call throws.
\<close>

datatype exit =
    HmrGuard
  | CycleGuard
  | BeforeLoadThrew
  | BeforeLoadCancelled
  | DuringLoadThrew
  | DuringLoadCancelled
  | Completed
  | HistoryGo

datatype outcome = Returned exit | Threw error

text \<open>
  \<^verbatim>\<open>revertLoading\<close>, with the \<open>prevCycle\<close> and \<open>prevComponentTree\<close> it closes over.
\<close>

definition revertLoading :: "buffer \<Rightarrow> tree \<Rightarrow> nav_state \<Rightarrow> nav_state" where
  "revertLoading prevCycle prevComponentTree s =
     s\<lparr>cycle := Stable prevCycle, componentTree := prevComponentTree\<rparr>"

text \<open>
  The code from \<^verbatim>\<open>const viewComponents = ...\<close> to \<^verbatim>\<open>phase.value = 'duringLoad'\<close>: the
  components are resolved, the tree is reconciled and the cycle made transitional. The
  result is the state in which the first \<^verbatim>\<open>duringLoad\<close> hook is called.
\<close>

definition loading :: "buffer \<Rightarrow> mstate \<Rightarrow> nav_state \<Rightarrow> nav_state" where
  "loading prevCycle m s1 =
     (let nextCycle = (if prevCycle = BufA then BA else AB);
          viewComponents =
            resolveViewComponents
              (if truthy (match m) then layouts m @ [match m] else layouts m);
          (t, reg) = calculateTree (componentTree s1) viewComponents nextCycle (params m)
                       (mountedComponents s1)
      in s1\<lparr>componentTree := t, mountedComponents := reg,
            cycle := Transitional nextCycle, phase := DuringLoad\<rparr>)"

text \<open>
  The part of \<^verbatim>\<open>onNavigate\<close> inside \<^verbatim>\<open>if (!bypass) { ... }\<close> before the commit. It
  gives the exit when the navigation stops there, or the state to go on with.
\<close>

definition load_phases ::
  "env \<Rightarrow> buffer \<Rightarrow> nat \<Rightarrow> mstate \<Rightarrow> nav_state \<Rightarrow> exit option \<times> nav_state" where
  "load_phases e prevCycle cur m s =
     (case beforeLoad_loop e cur (match m) (params m) (hooks m) (s\<lparr>phase := BeforeLoad\<rparr>) of
        (Throws, s1) \<Rightarrow> (Some BeforeLoadThrew, s1\<lparr>phase := Idle\<rparr>)
      | (Returns, s1) \<Rightarrow>
          if navigationIndex s1 \<noteq> cur
             \<or> (env_stack e ''beforeLoad'' \<and> pendingNavigationIndex s1 + 1 \<noteq> cur)
          then (Some BeforeLoadCancelled, s1\<lparr>phase := Idle\<rparr>)
          else
            (let prevComponentTree = componentTree s1;
                 s2 = loading prevCycle m s1
             in case duringLoad_loop e cur (hooks m) s2 of
                  (Throws, s3) \<Rightarrow>
                    (Some DuringLoadThrew,
                     (revertLoading prevCycle prevComponentTree s3)\<lparr>phase := Idle\<rparr>)
                | (Returns, s3) \<Rightarrow>
                    if navigationIndex s3 \<noteq> cur
                       \<or> (env_stack e ''duringLoad'' \<and> pendingNavigationIndex s3 + 1 \<noteq> cur)
                    then (Some DuringLoadCancelled,
                          (revertLoading prevCycle prevComponentTree s3)\<lparr>phase := Idle\<rparr>)
                    else (None, s3)))"

text \<open>
  The code of \<^verbatim>\<open>onNavigate\<close> before \<^verbatim>\<open>const bypass = options.bypass\<close>: the guards, the
  ticket and the matcher. It gives what the call returns or throws when it ends there,
  and otherwise \<open>prevCycle\<close>, \<open>currentNavigationIndex\<close>, the result of \<^verbatim>\<open>matchView\<close> and
  the state.
\<close>

definition enter ::
  "env \<Rightarrow> string option \<Rightarrow> nav_state
     \<Rightarrow> (outcome \<times> nav_state) + (buffer \<times> nat \<times> mstate \<times> nav_state)" where
  "enter e path s0 =
     (let same = (\<not> truthy_string path
                  \<and> loc_pathname (location s0) = loc_pathname (url (browser s0)))
      in if same \<and> \<not> firstBoot s0 then Inl (Returned HmrGuard, s0)
         else
           (let s = (if same then s0\<lparr>firstBoot := False\<rparr> else s0) in
            if env_views e = None \<or> env_views e = Some [] then Inl (Threw ViewsEmpty, s)
            else if isRendering s then Inl (Threw StillRendering, s)
            else
              (case cycle s of
                 Transitional d \<Rightarrow> Inl (Returned CycleGuard, s)
               | Stable prevCycle \<Rightarrow>
                   (let s1 = s\<lparr>navigationIndex := navigationIndex s + 1\<rparr>;
                        currentNavigationIndex = navigationIndex s1;
                        matchPath = (if truthy_string path then the path
                                     else loc_pathname (url (browser s1)));
                        matchPath' =
                          (if truthy_string (env_base e) \<and> startsWith matchPath (the (env_base e))
                           then (let rest = drop (length (the (env_base e))) matchPath
                                 in if rest = [] then ''/'' else rest)
                           else matchPath)
                    in case matchView matchPath' (the (env_views e)) of
                         Inl err \<Rightarrow> Inl (Threw err, s1)
                       | Inr m \<Rightarrow> Inr (prevCycle, currentNavigationIndex, m, s1)))))"

text \<open>
  \<^verbatim>\<open>onNavigate(path?, options)\<close>, run to its end without another navigation in between;
  what other code does while a hook is awaited is part of what the hook does to the
  state.
\<close>

definition onNavigate :: "env \<Rightarrow> string option \<Rightarrow> options \<Rightarrow> nav_state \<Rightarrow> outcome \<times> nav_state" where
  "onNavigate e path opts s0 =
     (case enter e path s0 of
        Inl stopped \<Rightarrow> stopped
      | Inr (prevCycle, currentNavigationIndex, m, s1) \<Rightarrow>
          if \<not> o_bypass opts then
            (case load_phases e prevCycle currentNavigationIndex m s1 of
               (Some x, s2) \<Rightarrow> (Returned x, s2)
             | (None, s2) \<Rightarrow>
                 (Returned Completed,
                  finish (render_phases e (hooks m) (commit e path opts (params m) s2))))
          else (Returned Completed, finish (commit e path opts (params m) s1)))"

text \<open>
  \<^verbatim>\<open>navigate(path, options)\<close>: a number goes to \<^verbatim>\<open>history.go\<close>, a string to
  \<^verbatim>\<open>onNavigate\<close>.
\<close>

datatype target = Path string | Delta int

fun navigate :: "env \<Rightarrow> target \<Rightarrow> options \<Rightarrow> nav_state \<Rightarrow> outcome \<times> nav_state" where
  "navigate e (Delta n) opts s =
     (Returned HistoryGo, s\<lparr>browser := (browser s)\<lparr>calls := calls (browser s) @ [Go n]\<rparr>\<rparr>)"
| "navigate e (Path path) opts s = onNavigate e (Some path) opts s"

section \<open>Patterns as lists of segments\<close>

text \<open>
  For the round trip through \<^verbatim>\<open>constructPath\<close> and \<^verbatim>\<open>matchView\<close> a pattern is given by
  its segments, literal or dynamic: \<open>pattern_of\<close> is the text of the pattern,
  \<open>fill ps\<close> the text of a segment once the parameters \<open>ps\<close> are substituted, and
  \<open>names\<close> the names of the dynamic segments.
\<close>

datatype segment = Literal string | Dynamic string

fun render :: "segment \<Rightarrow> string" where
  "render (Literal s) = s"
| "render (Dynamic n) = CHR '':'' # n"


fun fill :: "(string \<times> string) list \<Rightarrow> segment \<Rightarrow> string" where
  "fill ps (Literal s) = s"
| "fill ps (Dynamic n) = (case map_of ps n of Some v \<Rightarrow> v | None \<Rightarrow> CHR '':'' # n)"

fun names :: "segment list \<Rightarrow> string list" where
  "names [] = []"
| "names (Literal s # segs) = names segs"
| "names (Dynamic n # segs) = n # names segs"

definition slashes :: "string list \<Rightarrow> string" where
  "slashes xs = concat (map ((#) CHR ''/'') xs)"























section \<open>Scenarios\<close>

text \<open>Scenario C of the specification: \<^verbatim>\<open>prev = {a: [{X, key: 0}], b: [], eq: -1}\<close>.\<close>

definition node_of :: "string \<Rightarrow> int \<Rightarrow> node" where
  "node_of name k = \<lparr>node_C = Component name, node_key = k, node_params = NoParams\<rparr>"

definition scenarioC_prev :: tree where
  "scenarioC_prev = \<lparr>tree_a = [node_of ''X'' 0], tree_b = [], tree_eq = -1\<rparr>"

text \<open>
  Successive reconciliations as \<^verbatim>\<open>onNavigate\<close> issues them, each on the tree the one
  before left: \<^verbatim>\<open>componentTree.value = calculateTree({ prev: componentTree.value, ... })\<close>.
\<close>

fun reconciliations :: "tree \<Rightarrow> (resolved list \<times> direction) list \<Rightarrow> tree" where
  "reconciliations t [] = t"
| "reconciliations t ((nxt, cyc) # rest) =
     reconciliations (fst (calculateTree t nxt cyc [] [])) rest"

text \<open>
  Four navigations from the initial tree, in the directions the controller alternates
  (\<^verbatim>\<open>'ba'\<close> from cycle \<^verbatim>\<open>'a'\<close>, \<^verbatim>\<open>'ab'\<close> from cycle \<^verbatim>\<open>'b'\<close>): to view P, to view Q, to a
  path that resolves to nothing, to view R.
\<close>

definition three_navigations :: "(resolved list \<times> direction) list" where
  "three_navigations =
     [([Plain (Component ''P'')], BA), ([Plain (Component ''Q'')], AB), ([], BA)]"

definition four_navigations :: "(resolved list \<times> direction) list" where
  "four_navigations = three_navigations @ [([Plain (Component ''R'')], AB)]"

text \<open>Views and layouts of the route tables used below.\<close>

definition view :: "string \<Rightarrow> jsval" where
  "view name = Fn (Function name)"

text \<open>
  \<^verbatim>\<open>{ '/:id/edit': Edit, '/:name': Profile }\<close>: two dynamic patterns, the first of which
  is scanned and rejected for a path of one segment.
\<close>

definition siblings_table :: table where
  "siblings_table = [(''/:id/edit'', view ''Edit''), (''/:name'', view ''Profile'')]"

text \<open>\<^verbatim>\<open>{ '/:id': Detail, '(*rest)': NotFound }\<close>: a dynamic pattern and a wrapped wildcard.\<close>

definition wildcard_table :: table where
  "wildcard_table = [(''/:id'', view ''Detail''), (''(*rest)'', view ''NotFound'')]"





text \<open>
  The condition on user code under which the controller is the only writer of the tree
  and the cycle: no hook changes them, whatever it is called with.
\<close>

definition hooks_keep_tree :: "env \<Rightarrow> bool" where
  "hooks_keep_tree e =
     (\<forall>f args s. componentTree (snd (env_run e f args s)) = componentTree s
                \<and> cycle (snd (env_run e f args s)) = cycle s)"

text \<open>
  A small application: two views under a layout, and one hook, the function \<open>deny\<close>,
  which throws, registered under the given hook name. The hook leaves the state alone,
  the stack never names a hook, and the browser is at \<^verbatim>\<open>/\<close>.
\<close>

definition demo_table :: "string \<Rightarrow> table" where
  "demo_table hookName =
     [(''/'', view ''Home''), (''/about'', view ''About''), (''layout'', view ''Shell''),
      (''hooks'', Obj [(hookName, Fn (Function ''deny''))])]"

definition demo_run :: "string \<Rightarrow> hook_args \<Rightarrow> nav_state \<Rightarrow> hook_result \<times> nav_state" where
  "demo_run f args s = (if f = ''deny'' then Throws else Returns, s)"

definition demo_env :: "string \<Rightarrow> env" where
  "demo_env hookName =
     \<lparr>env_views = Some (demo_table hookName), env_base = None, env_run = demo_run,
      env_stack = (\<lambda>name. False), env_url = (\<lambda>loc to. (to, [], [])),
      env_search = (\<lambda>q. q)\<rparr>"

definition demo_browser :: browser where
  "demo_browser =
     \<lparr>url = \<lparr>loc_pathname = ''/'', loc_search = [], loc_state = None, loc_hash = []\<rparr>,
      calls = []\<rparr>"

definition demo_state :: nav_state where
  "demo_state = nav_init (\<lambda>q. q) demo_browser"

definition demo_options :: options where
  "demo_options =
     \<lparr>o_hash = None, o_replace = False, o_scrollToTop = ScrollUndefined, o_search = None,
      o_state = None, o_bypass = False\<rparr>"

text \<open>
  The same application with its second view in a nested table that has hooks of its
  own: \<^verbatim>\<open>{ '/': Home, '/about': { '/': About, hooks: { [hookName]: deny } }, layout: Shell,
  hooks: { [hookName]: allow } }\<close>. On the way to \<^verbatim>\<open>/about\<close> the hook \<open>allow\<close> of the
  outer table, which returns, is called before the hook \<open>deny\<close> of the nested one.
\<close>

definition guarded_table :: "string \<Rightarrow> table" where
  "guarded_table hookName =
     [(''/'', view ''Home''),
      (''/about'', Obj [(''/'', view ''About''),
                        (''hooks'', Obj [(hookName, Fn (Function ''deny''))])]),
      (''layout'', view ''Shell''),
      (''hooks'', Obj [(hookName, Fn (Function ''allow''))])]"

definition guarded_env :: "string \<Rightarrow> env" where
  "guarded_env hookName = (demo_env hookName)\<lparr>env_views := Some (guarded_table hookName)\<rparr>"

definition guarded_match :: "string \<Rightarrow> mstate" where
  "guarded_match hookName =
     \<lparr>match = view ''About'', layouts = [view ''Shell''],
      hooks = [Obj [(hookName, Fn (Function ''allow''))], Obj [(hookName, Fn (Function ''deny''))]],
      params = [], breakFromLayouts = False\<rparr>"








section \<open>Properties of the reconciler\<close>

lemma bump_rest_eq: "bump_rest i xs = take i xs @ map bump (drop i xs)"
proof (induction i xs rule: bump_rest.induct)
  case (1 i aft)
  show ?case
  proof (cases "i < length aft")
    case True
    have "bump_rest i aft = bump_rest (Suc i) (aft[i := bump (aft ! i)])"
      using True by (subst bump_rest.simps) simp
    also have "\<dots> = take (Suc i) (aft[i := bump (aft ! i)])
                      @ map bump (drop (Suc i) (aft[i := bump (aft ! i)]))"
      using 1 True by simp
    also have "\<dots> = take i aft @ map bump (drop i aft)"
      using True by (simp add: take_Suc_conv_app_nth Cons_nth_drop_Suc[symmetric])
    finally show ?thesis .
  next
    case False
    then show ?thesis by (subst bump_rest.simps) simp
  qed
qed

text \<open>
  What the two loops compute together, for the first loop entered at \<open>i\<close> with
  \<open>eq = i - 1\<close>: the keys from position \<open>eq + 1\<close> on are bumped once, and up to \<open>eq\<close> the
  two buffers hold the same reference and parameters.
\<close>

lemma scan_eq_result:
  "i \<le> mx \<Longrightarrow> mx \<le> length aft \<Longrightarrow> e = int i - 1 \<Longrightarrow>
   scan_eq i mx bef aft e = (j, aft', e') \<Longrightarrow>
   int i - 1 \<le> e' \<and> e' < int mx \<and>
   bump_rest j aft' = take (nat (e' + 1)) aft @ map bump (drop (nat (e' + 1)) aft) \<and>
   (\<forall>k. i \<le> k \<longrightarrow> int k \<le> e' \<longrightarrow>
      node_C (bef ! k) = node_C (aft ! k) \<and>
      \<not> params_differ (node_params (bef ! k)) (node_params (aft ! k)))"
proof (induction i mx bef aft e rule: scan_eq.induct)
  case (1 i mx bef aft e)
  note unf = scan_eq.simps[of i mx bef aft e]
  show ?case
  proof (cases "i < mx")
    case False
    with 1(2-) unf show ?thesis
      by (auto simp: bump_rest_eq)
  next
    case lt: True
    show ?thesis
    proof (cases "node_C (bef ! i) \<noteq> node_C (aft ! i)
           \<or> params_differ (node_params (bef ! i)) (node_params (aft ! i))")
      case True
      with lt 1(5) unf have r: "j = Suc i" "aft' = aft[i := bump (aft ! i)]" "e' = e"
        by auto
      have "nat (e' + 1) = i" using r 1(4) by simp
      then show ?thesis using r 1(2-) lt
        by (auto simp: bump_rest_eq take_Suc_conv_app_nth Cons_nth_drop_Suc[symmetric])
    next
      case False
      with lt 1(5) unf have "scan_eq (Suc i) mx bef aft (int i) = (j, aft', e')"
        by auto
      from 1(1)[OF lt False _ _ _ this] lt 1(3)
      have IH: "int (Suc i) - 1 \<le> e' \<and> e' < int mx \<and>
        bump_rest j aft' = take (nat (e' + 1)) aft @ map bump (drop (nat (e' + 1)) aft) \<and>
        (\<forall>k. Suc i \<le> k \<longrightarrow> int k \<le> e' \<longrightarrow>
          node_C (bef ! k) = node_C (aft ! k) \<and>
          \<not> params_differ (node_params (bef ! k)) (node_params (aft ! k)))"
        by simp
      have "node_C (bef ! k) = node_C (aft ! k) \<and>
          \<not> params_differ (node_params (bef ! k)) (node_params (aft ! k))"
        if "i \<le> k" "int k \<le> e'" for k
      proof (cases "k = i")
        case True
        with False show ?thesis by simp
      next
        case False
        with that have "Suc i \<le> k" by simp
        with IH that show ?thesis by blast
      qed
      with IH show ?thesis by simp
    qed
  qed
qed

lemma length_map_nodes [simp]: "length (map_nodes keys ps idx items) = length items"
  by (induction items arbitrary: idx) auto

lemma key_make_node [simp]: "node_key (make_node keys ps idx item) = key_at keys idx"
  by (cases item) auto

lemma key_map_nodes:
  "i < length items \<Longrightarrow> node_key (map_nodes keys ps idx items ! i) = key_at keys (idx + i)"
  by (induction items arbitrary: idx i) (auto simp: nth_Cons')

lemma calculateTree_shape:
  fixes prev nxt cyc ps reg
  defines "t \<equiv> fst (calculateTree prev nxt cyc ps reg)"
  defines "keys \<equiv> map node_key (buf prev (beforeCycle cyc))"
  defines "built \<equiv> map_nodes keys ps 0 nxt"
  shows "- 1 \<le> tree_eq t"
    and "tree_eq t < int (min (length nxt) (length (buf prev (beforeCycle cyc))))"
    and "buf t (beforeCycle cyc) = buf prev (beforeCycle cyc)"
    and "buf t (afterCycle cyc) =
           take (nat (tree_eq t + 1)) built @ map bump (drop (nat (tree_eq t + 1)) built)"
    and "\<forall>k. int k \<le> tree_eq t \<longrightarrow>
           node_C (buf prev (beforeCycle cyc) ! k) = node_C (built ! k) \<and>
           \<not> params_differ (node_params (buf prev (beforeCycle cyc) ! k)) (node_params (built ! k))"
proof -
  let ?bef = "buf prev (beforeCycle cyc)"
  let ?mx = "min (length nxt) (length ?bef)"
  obtain j aft' e' where sc: "scan_eq 0 ?mx ?bef built (- 1) = (j, aft', e')"
    by (cases "scan_eq 0 ?mx ?bef built (- 1)") auto
  have mx: "?mx \<le> length built" by (simp add: built_def)
  from scan_eq_result[OF _ mx _ sc]
  have r: "- 1 \<le> e'" "e' < int ?mx"
    "bump_rest j aft' = take (nat (e' + 1)) built @ map bump (drop (nat (e' + 1)) built)"
    "\<forall>k. int k \<le> e' \<longrightarrow>
      node_C (?bef ! k) = node_C (built ! k) \<and>
      \<not> params_differ (node_params (?bef ! k)) (node_params (built ! k))"
    by auto
  have t: "t = set_buf (afterCycle cyc) (bump_rest j aft')
                 (set_buf (beforeCycle cyc) ?bef \<lparr>tree_a = [], tree_b = [], tree_eq = e'\<rparr>)"
    using sc
    by (cases cyc) (simp_all add: t_def calculateTree_def Let_def built_def keys_def min.commute)
  have e: "tree_eq t = e'" by (cases cyc) (simp_all add: t)
  show "- 1 \<le> tree_eq t" using r e by simp
  show "tree_eq t < int ?mx" using r e by simp
  show "buf t (beforeCycle cyc) = ?bef" by (cases cyc) (simp_all add: t)
  show "buf t (afterCycle cyc) =
           take (nat (tree_eq t + 1)) built @ map bump (drop (nat (tree_eq t + 1)) built)"
    using r(3) e by (cases cyc) (simp_all add: t)
  show "\<forall>k. int k \<le> tree_eq t \<longrightarrow>
           node_C (?bef ! k) = node_C (built ! k) \<and>
           \<not> params_differ (node_params (?bef ! k)) (node_params (built ! k))"
    using r(4) e by simp
qed

lemma length_rebuilt:
  "length (buf (fst (calculateTree prev nxt cyc ps reg)) (afterCycle cyc)) = length nxt"
  by (simp add: calculateTree_shape(4))

lemma min_buffers:
  "min (length (tree_a t)) (length (tree_b t))
     = min (length (buf t (afterCycle cyc))) (length (buf t (beforeCycle cyc)))"
  by (cases cyc) (simp_all add: min.commute)

text \<open>
  Claim C1, as the code has it. In \<^verbatim>\<open>calculateTree\<close> the first letter of the direction
  is \<^verbatim>\<open>afterCycle\<close>, the buffer that is rebuilt from \<^verbatim>\<open>next\<close>, and the second letter is
  \<^verbatim>\<open>beforeCycle\<close>, the buffer copied unchanged from \<^verbatim>\<open>prev\<close>. With the previous tree of
  scenario C and direction \<^verbatim>\<open>'ab'\<close> the result keeps \<open>b = []\<close> and has \<open>a = [{Y, key: 1}]\<close>
  (the key bumped from the default 0) and \<open>eq = -1\<close>; the result the scenario gives,
  \<open>a = [{X, key: 0}]\<close> and \<open>b = [{Y, key: 1}]\<close>, is the one of direction \<^verbatim>\<open>'ba'\<close>; and for
  every input the buffer of the second letter is the one of \<^verbatim>\<open>prev\<close>.
\<close>

theorem C1_second_letter_is_kept:
  "fst (calculateTree scenarioC_prev [Plain (Component ''Y'')] AB ps reg)
     = \<lparr>tree_a = [node_of ''Y'' 1], tree_b = [], tree_eq = -1\<rparr>
   \<and> fst (calculateTree scenarioC_prev [Plain (Component ''Y'')] BA ps reg)
     = \<lparr>tree_a = [node_of ''X'' 0], tree_b = [node_of ''Y'' 1], tree_eq = -1\<rparr>
   \<and> buf (fst (calculateTree prev nxt cyc ps' reg')) (beforeCycle cyc)
     = buf prev (beforeCycle cyc)"
proof (intro conjI)
  show "fst (calculateTree scenarioC_prev [Plain (Component ''Y'')] AB ps reg)
     = \<lparr>tree_a = [node_of ''Y'' 1], tree_b = [], tree_eq = -1\<rparr>"
    by (simp add: calculateTree_def scenarioC_prev_def node_of_def key_at_def
          scan_eq.simps bump_rest.simps bump_def)
  show "fst (calculateTree scenarioC_prev [Plain (Component ''Y'')] BA ps reg)
     = \<lparr>tree_a = [node_of ''X'' 0], tree_b = [node_of ''Y'' 1], tree_eq = -1\<rparr>"
    by (simp add: calculateTree_def scenarioC_prev_def node_of_def key_at_def
          scan_eq.simps bump_rest.simps bump_def)
  show "buf (fst (calculateTree prev nxt cyc ps' reg')) (beforeCycle cyc)
     = buf prev (beforeCycle cyc)"
    by (rule calculateTree_shape(3))
qed

text \<open>
  Claim C1 as stated fails: with direction \<^verbatim>\<open>'ab'\<close> the \<open>a\<close> buffer of the result is not
  \<open>[{X, key: 0}]\<close> and its \<open>b\<close> buffer is not \<open>[{Y, key: 1}]\<close>.
\<close>

theorem C1_counterexample:
  "tree_a (fst (calculateTree scenarioC_prev [Plain (Component ''Y'')] AB [] []))
     \<noteq> [node_of ''X'' 0]
   \<and> tree_b (fst (calculateTree scenarioC_prev [Plain (Component ''Y'')] AB [] []))
     \<noteq> [node_of ''Y'' 1]"
  by (simp add: calculateTree_def scenarioC_prev_def node_of_def key_at_def
        scan_eq.simps bump_rest.simps bump_def)

text \<open>
  Claim C5, as the code has it. Every tree that \<^verbatim>\<open>calculateTree\<close> returns has \<open>eq\<close> in
  \<open>[-1, min(len(a), len(b)) - 1]\<close>. The buffer of the second letter is kept, the buffer
  of the first letter has one node per element of \<^verbatim>\<open>next\<close>, and the key of its slot \<open>i\<close>
  is the key that the kept buffer holds at slot \<open>i\<close> (0 when it has no such slot), as it
  is up to \<open>eq\<close> and plus one after \<open>eq\<close>: it is never below the kept buffer's key at that
  slot. Nothing relates it to the key that the rebuilt buffer held at that slot before.
\<close>

theorem C5_eq_range_and_keys:
  "(let t = fst (calculateTree prev nxt cyc ps reg);
        keys = map node_key (buf prev (beforeCycle cyc))
    in - 1 \<le> tree_eq t
     \<and> tree_eq t \<le> int (min (length (tree_a t)) (length (tree_b t))) - 1
     \<and> buf t (beforeCycle cyc) = buf prev (beforeCycle cyc)
     \<and> length (buf t (afterCycle cyc)) = length nxt
     \<and> (\<forall>i. i < length nxt \<longrightarrow>
           node_key (buf t (afterCycle cyc) ! i)
             = key_at keys i + (if int i \<le> tree_eq t then 0 else 1))
     \<and> (\<forall>i. i < length nxt \<longrightarrow> i < length (buf prev (beforeCycle cyc)) \<longrightarrow>
           node_key (buf prev (beforeCycle cyc) ! i) \<le> node_key (buf t (afterCycle cyc) ! i)))"
proof -
  define t where "t = fst (calculateTree prev nxt cyc ps reg)"
  define keys where "keys = map node_key (buf prev (beforeCycle cyc))"
  define built where "built = map_nodes keys ps 0 nxt"
  note sh = calculateTree_shape[of prev nxt cyc ps reg, folded t_def keys_def built_def]
  have lo: "- 1 \<le> tree_eq t" by (rule sh(1))
  have kept: "buf t (beforeCycle cyc) = buf prev (beforeCycle cyc)" by (rule sh(3))
  have len: "length (buf t (afterCycle cyc)) = length nxt"
    unfolding t_def by (rule length_rebuilt)
  have hi: "tree_eq t \<le> int (min (length (tree_a t)) (length (tree_b t))) - 1"
    using sh(2) by (simp add: min_buffers[of t cyc] len kept)
  have key: "node_key (buf t (afterCycle cyc) ! i)
               = key_at keys i + (if int i \<le> tree_eq t then 0 else 1)"
    if "i < length nxt" for i
  proof (cases "int i \<le> tree_eq t")
    case True
    then have "i < nat (tree_eq t + 1)" using lo by linarith
    then show ?thesis
      using that True key_map_nodes[of i nxt keys ps 0]
      by (simp add: sh(4) nth_append built_def)
  next
    case False
    then have ge: "nat (tree_eq t + 1) \<le> i" using lo by linarith
    then show ?thesis
      using that False key_map_nodes[of i nxt keys ps 0]
      by (simp add: sh(4) nth_append built_def bump_def)
  qed
  have mono: "node_key (buf prev (beforeCycle cyc) ! i) \<le> node_key (buf t (afterCycle cyc) ! i)"
    if "i < length nxt" "i < length (buf prev (beforeCycle cyc))" for i
    using key[OF that(1)] that(2) by (simp add: keys_def key_at_def)
  show ?thesis
    unfolding Let_def t_def[symmetric] keys_def[symmetric]
    using lo hi kept len key mono by blast
qed

text \<open>
  The theorem at scenario C with direction \<^verbatim>\<open>'ba'\<close>: slot 0 exists in \<^verbatim>\<open>next\<close> and in
  the kept buffer \<open>a\<close>, \<open>eq\<close> is \<open>-1\<close>, and the key of slot 0 of \<open>b\<close> is the kept key 0 plus
  one.
\<close>

theorem C5_eq_range_and_keys_witness:
  "(0::nat) < length [Plain (Component ''Y'')]
   \<and> (0::nat) < length (buf scenarioC_prev (beforeCycle BA))
   \<and> tree_eq (fst (calculateTree scenarioC_prev [Plain (Component ''Y'')] BA [] [])) = - 1
   \<and> node_key (tree_b (fst (calculateTree scenarioC_prev [Plain (Component ''Y'')] BA [] [])) ! 0) = 1
   \<and> node_key (tree_a scenarioC_prev ! 0)
       \<le> node_key (tree_b (fst (calculateTree scenarioC_prev [Plain (Component ''Y'')] BA [] [])) ! 0)"
proof -
  have h1: "(0::nat) < length [Plain (Component ''Y'')]" by simp
  have h2: "(0::nat) < length (buf scenarioC_prev (beforeCycle BA))"
    by (simp add: scenarioC_prev_def)
  have e: "tree_eq (fst (calculateTree scenarioC_prev [Plain (Component ''Y'')] BA [] [])) = - 1"
    by (simp add: calculateTree_def scenarioC_prev_def node_of_def key_at_def
          scan_eq.simps bump_rest.simps bump_def)
  from C5_eq_range_and_keys[of scenarioC_prev "[Plain (Component ''Y'')]" BA "[]" "[]"]
  have k: "node_key (tree_b (fst (calculateTree scenarioC_prev [Plain (Component ''Y'')] BA [] [])) ! 0)
             = key_at (map node_key (tree_a scenarioC_prev)) 0
               + (if int 0 \<le> tree_eq (fst (calculateTree scenarioC_prev [Plain (Component ''Y'')] BA [] []))
                  then 0 else 1)"
    and m: "node_key (tree_a scenarioC_prev ! 0)
       \<le> node_key (tree_b (fst (calculateTree scenarioC_prev [Plain (Component ''Y'')] BA [] [])) ! 0)"
    using h1 h2 by (simp_all add: Let_def)
  have "node_key (tree_b (fst (calculateTree scenarioC_prev [Plain (Component ''Y'')] BA [] [])) ! 0) = 1"
    using k e by (simp add: key_at_def scenarioC_prev_def node_of_def)
  with h1 h2 e m show ?thesis by blast
qed

text \<open>
  Claim C5 as stated fails twice. The initial tree has \<open>eq = 0\<close> with two empty buffers,
  above \<open>min(len(a), len(b)) - 1 = -1\<close>. And after the navigations to P, to Q and to a
  path that resolves to nothing, slot 0 of buffer \<open>a\<close> holds key 2; the next
  reconciliation, to R, rebuilds \<open>a\<close> from the keys of the empty buffer \<open>b\<close> and leaves
  key 1 in that slot.
\<close>

theorem C5_counterexample:
  "\<not> tree_eq componentTree_init
       \<le> int (min (length (tree_a componentTree_init)) (length (tree_b componentTree_init))) - 1
   \<and> tree_a (reconciliations componentTree_init three_navigations) = [node_of ''Q'' 2]
   \<and> tree_a (reconciliations componentTree_init four_navigations) = [node_of ''R'' 1]
   \<and> node_key (tree_a (reconciliations componentTree_init four_navigations) ! 0)
       < node_key (tree_a (reconciliations componentTree_init three_navigations) ! 0)"
  by code_simp

section \<open>Properties of the matcher and the sorter\<close>

text \<open>
  Claim C2 at the table \<^verbatim>\<open>{ '/:id/edit': Edit, '/:name': Profile }\<close> and the path
  \<^verbatim>\<open>/foo\<close>: the winning pattern is \<^verbatim>\<open>/:name\<close>, and the record returned also holds
  \<open>id\<close>, bound while the first candidate was scanned and never removed when it was
  rejected.
\<close>

theorem C2_leftover_binding:
  "matchView ''/foo'' siblings_table =
     Inr \<lparr>match = view ''Profile'', layouts = [], hooks = [],
          params = [(''id'', Some ''foo''), (''name'', Some ''foo'')],
          breakFromLayouts = False\<rparr>"
  by code_simp

text \<open>
  What does hold of the sorter: its result is in the order of the priorities that
  \<^verbatim>\<open>getViewPriority\<close> gives, and keys of one priority keep their order.
\<close>

lemma sortViews_sorted_stable:
  "sorted (map getViewPriority (sortViews vs))
   \<and> filter (\<lambda>v. getViewPriority v = p) (sortViews vs) = filter (\<lambda>v. getViewPriority v = p) vs
   \<and> set (sortViews vs) = set vs \<and> length (sortViews vs) = length vs"
  by (simp add: sortViews_def sort_key_stable)

text \<open>
  Claim C6 at the keys \<^verbatim>\<open>'/:id'\<close> and \<^verbatim>\<open>'(*rest)'\<close>: \<^verbatim>\<open>getViewPriority\<close> tests
  \<^verbatim>\<open>startsWith('*')\<close> on the key with its parentheses, so the wrapped wildcard is given
  the priority of a static literal and sorts before the dynamic pattern; the matcher,
  which strips the parentheses, then lets the wildcard win over the dynamic pattern.
\<close>

theorem C6_wrapped_wildcard_sorted_as_static:
  "getViewPriority ''(*rest)'' = 2
   \<and> getViewPriority ''/:id'' = 3
   \<and> sortViews [''/:id'', ''(*rest)''] = [''(*rest)'', ''/:id'']
   \<and> matchView ''/42'' wildcard_table =
       Inr \<lparr>match = view ''NotFound'', layouts = [], hooks = [],
            params = [(''rest'', Some ''42'')], breakFromLayouts = True\<rparr>"
  by code_simp
















section \<open>Properties of the navigation controller\<close>

lemma call_hook_keeps:
  assumes "hooks_keep_tree e"
  shows "componentTree (snd (call_hook e v args s)) = componentTree s
       \<and> cycle (snd (call_hook e v args s)) = cycle s"
  using assms by (cases "(e, v, args, s)" rule: call_hook.cases) (simp_all add: hooks_keep_tree_def)

lemma beforeLoad_loop_keeps:
  assumes "hooks_keep_tree e"
  shows "beforeLoad_loop e cur m ps hs s = (r, s') \<Longrightarrow>
         componentTree s' = componentTree s \<and> cycle s' = cycle s"
proof (induction hs arbitrary: s)
  case Nil
  then show ?case by simp
next
  case (Cons h hs)
  let ?s1 = "s\<lparr>pendingNavigationIndex := cur\<rparr>"
  obtain r1 s1 where c: "call_hook e (hook_prop ''beforeLoad'' h) (BeforeLoadArgs m ps) ?s1 = (r1, s1)"
    by (cases "call_hook e (hook_prop ''beforeLoad'' h) (BeforeLoadArgs m ps) ?s1") auto
  from call_hook_keeps[OF assms, of "hook_prop ''beforeLoad'' h" "BeforeLoadArgs m ps" ?s1] c
  have k: "componentTree s1 = componentTree s \<and> cycle s1 = cycle s" by simp
  show ?case
  proof (cases r1)
    case Throws
    with Cons.prems c k show ?thesis by simp
  next
    case Returns
    with Cons.prems c have "beforeLoad_loop e cur m ps hs s1 = (r, s')" by simp
    from Cons.IH[OF this] k show ?thesis by simp
  qed
qed

lemma duringLoad_loop_keeps:
  assumes "hooks_keep_tree e"
  shows "duringLoad_loop e cur hs s = (r, s') \<Longrightarrow>
         componentTree s' = componentTree s \<and> cycle s' = cycle s"
proof (induction hs arbitrary: s)
  case Nil
  then show ?case by simp
next
  case (Cons h hs)
  let ?s1 = "s\<lparr>pendingNavigationIndex := cur\<rparr>"
  obtain r1 s1 where c: "call_hook e (hook_prop ''duringLoad'' h) (render_args ?s1) ?s1 = (r1, s1)"
    by (cases "call_hook e (hook_prop ''duringLoad'' h) (render_args ?s1) ?s1") auto
  from call_hook_keeps[OF assms, of "hook_prop ''duringLoad'' h" "render_args ?s1" ?s1] c
  have k: "componentTree s1 = componentTree s \<and> cycle s1 = cycle s" by simp
  show ?case
  proof (cases r1)
    case Throws
    with Cons.prems c k show ?thesis by (simp add: Let_def)
  next
    case Returns
    with Cons.prems c have "duringLoad_loop e cur hs s1 = (r, s')" by (simp add: Let_def)
    from Cons.IH[OF this] k show ?thesis by simp
  qed
qed

text \<open>
  The loops over the hooks stop at the first hook that throws: when the hooks before
  \<open>h\<close> have returned and the call of \<open>h\<close> throws, the loop ends there, in the state that
  call left, and the hooks after \<open>h\<close> are not called.
\<close>

lemma beforeLoad_loop_throws:
  assumes "beforeLoad_loop e cur m ps pre s = (Returns, sk)"
    and "call_hook e (hook_prop ''beforeLoad'' h) (BeforeLoadArgs m ps)
           (sk\<lparr>pendingNavigationIndex := cur\<rparr>) = (Throws, st)"
  shows "beforeLoad_loop e cur m ps (pre @ h # post) s = (Throws, st)"
  using assms
proof (induction pre arbitrary: s)
  case Nil
  then show ?case by simp
next
  case (Cons x pre)
  obtain r1 s1 where c: "call_hook e (hook_prop ''beforeLoad'' x) (BeforeLoadArgs m ps)
                           (s\<lparr>pendingNavigationIndex := cur\<rparr>) = (r1, s1)"
    by (cases "call_hook e (hook_prop ''beforeLoad'' x) (BeforeLoadArgs m ps)
                 (s\<lparr>pendingNavigationIndex := cur\<rparr>)") auto
  show ?case
  proof (cases r1)
    case Throws
    with Cons.prems(1) c show ?thesis by simp
  next
    case Returns
    with Cons.prems(1) c have "beforeLoad_loop e cur m ps pre s1 = (Returns, sk)" by simp
    from Cons.IH[OF this Cons.prems(2)] c Returns show ?thesis by simp
  qed
qed

lemma duringLoad_loop_throws:
  assumes "duringLoad_loop e cur pre s = (Returns, sk)"
    and "call_hook e (hook_prop ''duringLoad'' h) (render_args (sk\<lparr>pendingNavigationIndex := cur\<rparr>))
           (sk\<lparr>pendingNavigationIndex := cur\<rparr>) = (Throws, st)"
  shows "duringLoad_loop e cur (pre @ h # post) s = (Throws, st)"
  using assms
proof (induction pre arbitrary: s)
  case Nil
  then show ?case by (simp add: Let_def)
next
  case (Cons x pre)
  let ?s1 = "s\<lparr>pendingNavigationIndex := cur\<rparr>"
  obtain r1 s1 where c: "call_hook e (hook_prop ''duringLoad'' x) (render_args ?s1) ?s1 = (r1, s1)"
    by (cases "call_hook e (hook_prop ''duringLoad'' x) (render_args ?s1) ?s1") auto
  show ?case
  proof (cases r1)
    case Throws
    with Cons.prems(1) c show ?thesis by (simp add: Let_def)
  next
    case Returns
    with Cons.prems(1) c have "duringLoad_loop e cur pre s1 = (Returns, sk)" by (simp add: Let_def)
    from Cons.IH[OF this Cons.prems(2)] c Returns show ?thesis by (simp add: Let_def)
  qed
qed

lemma enter_keeps:
  assumes "enter e path s = Inr (prevCycle, cur, m, s1)"
  shows "cycle s = Stable prevCycle \<and> cycle s1 = cycle s \<and> componentTree s1 = componentTree s"
  using assms
  by (auto simp: enter_def Let_def split: if_splits cycle.splits sum.splits)

text \<open>
  Claim C3. Take a navigation without \<^verbatim>\<open>bypass\<close> that passes the guards and for which
  the matcher returns \<open>m\<close>, and a hook object \<open>h\<close> among the hooks of \<open>m\<close>, and let no
  hook write to the tree or the cycle itself. If the \<^verbatim>\<open>beforeLoad\<close> hooks before \<open>h\<close> have
  returned and the call of the one of \<open>h\<close> throws, \<^verbatim>\<open>onNavigate\<close> returns at the \<^verbatim>\<open>catch\<close>
  of that loop, it does not throw, and it leaves the state of the throwing call with
  the phase idle: the tree and the cycle are those of before the navigation. If all the
  \<^verbatim>\<open>beforeLoad\<close> hooks have returned, the navigation has not been overtaken, the
  \<^verbatim>\<open>duringLoad\<close> hooks before \<open>h\<close> have returned and the call of the one of \<open>h\<close> throws
  (the cycle then being transitional and the tree the reconciled one), \<^verbatim>\<open>onNavigate\<close>
  returns at the \<^verbatim>\<open>catch\<close> of that loop with the tree and the cycle put back to what they
  were before the navigation and the phase idle.
\<close>

theorem C3_hook_failure_keeps_tree:
  assumes frame: "hooks_keep_tree e"
    and enter: "enter e path s = Inr (prevCycle, cur, m, s1)"
    and nb: "\<not> o_bypass opts"
    and hs: "hooks m = pre @ h # post"
  shows
    "(beforeLoad_loop e cur (match m) (params m) pre (s1\<lparr>phase := BeforeLoad\<rparr>) = (Returns, sk)
        \<and> call_hook e (hook_prop ''beforeLoad'' h) (BeforeLoadArgs (match m) (params m))
             (sk\<lparr>pendingNavigationIndex := cur\<rparr>) = (Throws, st)
      \<longrightarrow> onNavigate e path opts s = (Returned BeforeLoadThrew, st\<lparr>phase := Idle\<rparr>)
          \<and> componentTree (snd (onNavigate e path opts s)) = componentTree s
          \<and> cycle (snd (onNavigate e path opts s)) = cycle s
          \<and> phase (snd (onNavigate e path opts s)) = Idle)
     \<and> (beforeLoad_loop e cur (match m) (params m) (hooks m) (s1\<lparr>phase := BeforeLoad\<rparr>) = (Returns, s2)
        \<and> navigationIndex s2 = cur
        \<and> (env_stack e ''beforeLoad'' \<longrightarrow> pendingNavigationIndex s2 + 1 = cur)
        \<and> duringLoad_loop e cur pre (loading prevCycle m s2) = (Returns, sk)
        \<and> call_hook e (hook_prop ''duringLoad'' h)
             (render_args (sk\<lparr>pendingNavigationIndex := cur\<rparr>))
             (sk\<lparr>pendingNavigationIndex := cur\<rparr>) = (Throws, st)
      \<longrightarrow> cycle sk = Transitional (if prevCycle = BufA then BA else AB)
          \<and> componentTree sk = componentTree (loading prevCycle m s2)
          \<and> onNavigate e path opts s
              = (Returned DuringLoadThrew,
                 st\<lparr>cycle := cycle s, componentTree := componentTree s, phase := Idle\<rparr>)
          \<and> componentTree (snd (onNavigate e path opts s)) = componentTree s
          \<and> cycle (snd (onNavigate e path opts s)) = cycle s
          \<and> phase (snd (onNavigate e path opts s)) = Idle)"
proof (intro conjI impI)
  note ek = enter_keeps[OF enter]
  assume a: "beforeLoad_loop e cur (match m) (params m) pre (s1\<lparr>phase := BeforeLoad\<rparr>) = (Returns, sk)
        \<and> call_hook e (hook_prop ''beforeLoad'' h) (BeforeLoadArgs (match m) (params m))
             (sk\<lparr>pendingNavigationIndex := cur\<rparr>) = (Throws, st)"
  then have loop: "beforeLoad_loop e cur (match m) (params m) (hooks m) (s1\<lparr>phase := BeforeLoad\<rparr>)
                     = (Throws, st)"
    unfolding hs by (intro beforeLoad_loop_throws[where sk = sk]) simp_all
  then have res: "onNavigate e path opts s = (Returned BeforeLoadThrew, st\<lparr>phase := Idle\<rparr>)"
    using enter nb by (simp add: onNavigate_def load_phases_def)
  from beforeLoad_loop_keeps[OF frame loop] ek
  have k: "componentTree st = componentTree s" "cycle st = cycle s" by simp_all
  show "onNavigate e path opts s = (Returned BeforeLoadThrew, st\<lparr>phase := Idle\<rparr>)"
    by (rule res)
  show "componentTree (snd (onNavigate e path opts s)) = componentTree s"
    using res k by simp
  show "cycle (snd (onNavigate e path opts s)) = cycle s"
    using res k by simp
  show "phase (snd (onNavigate e path opts s)) = Idle"
    using res by simp
next
  note ek = enter_keeps[OF enter]
  assume a: "beforeLoad_loop e cur (match m) (params m) (hooks m) (s1\<lparr>phase := BeforeLoad\<rparr>) = (Returns, s2)
        \<and> navigationIndex s2 = cur
        \<and> (env_stack e ''beforeLoad'' \<longrightarrow> pendingNavigationIndex s2 + 1 = cur)
        \<and> duringLoad_loop e cur pre (loading prevCycle m s2) = (Returns, sk)
        \<and> call_hook e (hook_prop ''duringLoad'' h)
             (render_args (sk\<lparr>pendingNavigationIndex := cur\<rparr>))
             (sk\<lparr>pendingNavigationIndex := cur\<rparr>) = (Throws, st)"
  then have bl: "beforeLoad_loop e cur (match m) (params m) (hooks m) (s1\<lparr>phase := BeforeLoad\<rparr>)
                   = (Returns, s2)"
    and live: "\<not> (navigationIndex s2 \<noteq> cur
                   \<or> (env_stack e ''beforeLoad'' \<and> pendingNavigationIndex s2 + 1 \<noteq> cur))"
    and pre: "duringLoad_loop e cur pre (loading prevCycle m s2) = (Returns, sk)"
    by auto
  from a have loop: "duringLoad_loop e cur (hooks m) (loading prevCycle m s2) = (Throws, st)"
    unfolding hs by (intro duringLoad_loop_throws[where sk = sk]) simp_all
  from beforeLoad_loop_keeps[OF frame bl] ek
  have k2: "componentTree s2 = componentTree s" "cycle s2 = cycle s" by simp_all
  have res: "onNavigate e path opts s
              = (Returned DuringLoadThrew,
                 st\<lparr>cycle := cycle s, componentTree := componentTree s, phase := Idle\<rparr>)"
    using enter nb bl live loop k2 ek
    by (simp add: onNavigate_def load_phases_def Let_def revertLoading_def)
  from duringLoad_loop_keeps[OF frame pre]
  have kk: "componentTree sk = componentTree (loading prevCycle m s2)"
    "cycle sk = cycle (loading prevCycle m s2)" by simp_all
  show "cycle sk = Transitional (if prevCycle = BufA then BA else AB)"
    using kk by (simp add: loading_def Let_def split: prod.splits)
  show "componentTree sk = componentTree (loading prevCycle m s2)"
    by (rule kk)
  show "onNavigate e path opts s
              = (Returned DuringLoadThrew,
                 st\<lparr>cycle := cycle s, componentTree := componentTree s, phase := Idle\<rparr>)"
    by (rule res)
  show "componentTree (snd (onNavigate e path opts s)) = componentTree s"
    using res by simp
  show "cycle (snd (onNavigate e path opts s)) = cycle s"
    using res by simp
  show "phase (snd (onNavigate e path opts s)) = Idle"
    using res by simp
qed



text \<open>
  The theorem in the application with nested hooks, for a navigation to \<^verbatim>\<open>/about\<close>:
  once with the hooks registered as \<^verbatim>\<open>beforeLoad\<close> and once as \<^verbatim>\<open>duringLoad\<close>. In both
  the hook \<open>allow\<close> returns and the hook \<open>deny\<close> after it throws.
\<close>

theorem C3_hook_failure_keeps_tree_witness:
  "hooks_keep_tree (guarded_env ''beforeLoad'')
   \<and> enter (guarded_env ''beforeLoad'') (Some ''/about'') demo_state
       = Inr (BufA, 1, guarded_match ''beforeLoad'', demo_state\<lparr>navigationIndex := 1\<rparr>)
   \<and> \<not> o_bypass demo_options
   \<and> hooks (guarded_match ''beforeLoad'')
       = [Obj [(''beforeLoad'', Fn (Function ''allow''))]]
         @ Obj [(''beforeLoad'', Fn (Function ''deny''))] # []
   \<and> beforeLoad_loop (guarded_env ''beforeLoad'') 1 (view ''About'') []
        [Obj [(''beforeLoad'', Fn (Function ''allow''))]]
        (demo_state\<lparr>navigationIndex := 1, phase := BeforeLoad\<rparr>)
       = (Returns, demo_state\<lparr>navigationIndex := 1, phase := BeforeLoad,
                               pendingNavigationIndex := 1\<rparr>)
   \<and> call_hook (guarded_env ''beforeLoad'')
        (hook_prop ''beforeLoad'' (Obj [(''beforeLoad'', Fn (Function ''deny''))]))
        (BeforeLoadArgs (view ''About'') [])
        (demo_state\<lparr>navigationIndex := 1, phase := BeforeLoad, pendingNavigationIndex := 1\<rparr>)
       = (Throws, demo_state\<lparr>navigationIndex := 1, phase := BeforeLoad,
                              pendingNavigationIndex := 1\<rparr>)
   \<and> onNavigate (guarded_env ''beforeLoad'') (Some ''/about'') demo_options demo_state
       = (Returned BeforeLoadThrew,
          demo_state\<lparr>navigationIndex := 1, pendingNavigationIndex := 1\<rparr>)
   \<and> hooks_keep_tree (guarded_env ''duringLoad'')
   \<and> enter (guarded_env ''duringLoad'') (Some ''/about'') demo_state
       = Inr (BufA, 1, guarded_match ''duringLoad'', demo_state\<lparr>navigationIndex := 1\<rparr>)
   \<and> hooks (guarded_match ''duringLoad'')
       = [Obj [(''duringLoad'', Fn (Function ''allow''))]]
         @ Obj [(''duringLoad'', Fn (Function ''deny''))] # []
   \<and> beforeLoad_loop (guarded_env ''duringLoad'') 1 (view ''About'') []
        (hooks (guarded_match ''duringLoad''))
        (demo_state\<lparr>navigationIndex := 1, phase := BeforeLoad\<rparr>)
       = (Returns, demo_state\<lparr>navigationIndex := 1, phase := BeforeLoad,
                               pendingNavigationIndex := 1\<rparr>)
   \<and> \<not> env_stack (guarded_env ''duringLoad'') ''beforeLoad''
   \<and> duringLoad_loop (guarded_env ''duringLoad'') 1
        [Obj [(''duringLoad'', Fn (Function ''allow''))]]
        (loading BufA (guarded_match ''duringLoad'')
           (demo_state\<lparr>navigationIndex := 1, phase := BeforeLoad, pendingNavigationIndex := 1\<rparr>))
       = (Returns,
          loading BufA (guarded_match ''duringLoad'')
           (demo_state\<lparr>navigationIndex := 1, phase := BeforeLoad, pendingNavigationIndex := 1\<rparr>))
   \<and> call_hook (guarded_env ''duringLoad'')
        (hook_prop ''duringLoad'' (Obj [(''duringLoad'', Fn (Function ''deny''))]))
        (render_args (loading BufA (guarded_match ''duringLoad'')
           (demo_state\<lparr>navigationIndex := 1, phase := BeforeLoad, pendingNavigationIndex := 1\<rparr>)))
        (loading BufA (guarded_match ''duringLoad'')
           (demo_state\<lparr>navigationIndex := 1, phase := BeforeLoad, pendingNavigationIndex := 1\<rparr>))
       = (Throws,
          loading BufA (guarded_match ''duringLoad'')
           (demo_state\<lparr>navigationIndex := 1, phase := BeforeLoad, pendingNavigationIndex := 1\<rparr>))
   \<and> cycle (loading BufA (guarded_match ''duringLoad'')
           (demo_state\<lparr>navigationIndex := 1, phase := BeforeLoad, pendingNavigationIndex := 1\<rparr>))
       = Transitional BA
   \<and> componentTree (loading BufA (guarded_match ''duringLoad'')
           (demo_state\<lparr>navigationIndex := 1, phase := BeforeLoad, pendingNavigationIndex := 1\<rparr>))
       = \<lparr>tree_a = [], tree_b = [node_of ''Shell'' 1, node_of ''About'' 1], tree_eq = -1\<rparr>
   \<and> fst (onNavigate (guarded_env ''duringLoad'') (Some ''/about'') demo_options demo_state)
       = Returned DuringLoadThrew
   \<and> componentTree (snd (onNavigate (guarded_env ''duringLoad'') (Some ''/about'') demo_options
                            demo_state))
       = componentTree demo_state
   \<and> cycle (snd (onNavigate (guarded_env ''duringLoad'') (Some ''/about'') demo_options demo_state))
       = cycle demo_state
   \<and> phase (snd (onNavigate (guarded_env ''duringLoad'') (Some ''/about'') demo_options demo_state))
       = Idle"
proof -
  let ?eb = "guarded_env ''beforeLoad''" and ?ed = "guarded_env ''duringLoad''"
  let ?mb = "guarded_match ''beforeLoad''" and ?md = "guarded_match ''duringLoad''"
  let ?s1 = "demo_state\<lparr>navigationIndex := 1\<rparr>"
  let ?s2 = "demo_state\<lparr>navigationIndex := 1, phase := BeforeLoad, pendingNavigationIndex := 1\<rparr>"
  let ?l = "loading BufA ?md ?s2"
  have k: "hooks_keep_tree (guarded_env name)" for name
    by (simp add: hooks_keep_tree_def guarded_env_def demo_env_def demo_run_def)
  have nb: "\<not> o_bypass demo_options" by (simp add: demo_options_def)
  have mb: "match ?mb = view ''About''" "params ?mb = []"
    and md: "match ?md = view ''About''" "params ?md = []"
    by (simp_all add: guarded_match_def)
  have s2: "?s2\<lparr>pendingNavigationIndex := 1\<rparr> = ?s2"
    by simp
  have eb: "enter ?eb (Some ''/about'') demo_state = Inr (BufA, 1, ?mb, ?s1)"
    by code_simp
  have hb: "hooks ?mb = [Obj [(''beforeLoad'', Fn (Function ''allow''))]]
                          @ Obj [(''beforeLoad'', Fn (Function ''deny''))] # []"
    by (simp add: guarded_match_def)
  have b1: "beforeLoad_loop ?eb 1 (view ''About'') [] [Obj [(''beforeLoad'', Fn (Function ''allow''))]]
              (demo_state\<lparr>navigationIndex := 1, phase := BeforeLoad\<rparr>) = (Returns, ?s2)"
    by code_simp
  have b2: "call_hook ?eb (hook_prop ''beforeLoad'' (Obj [(''beforeLoad'', Fn (Function ''deny''))]))
              (BeforeLoadArgs (view ''About'') []) ?s2 = (Throws, ?s2)"
    by code_simp
  have idle: "?s2\<lparr>phase := Idle\<rparr> = demo_state\<lparr>navigationIndex := 1, pendingNavigationIndex := 1\<rparr>"
    by code_simp
  have pb: "beforeLoad_loop ?eb 1 (match ?mb) (params ?mb)
              [Obj [(''beforeLoad'', Fn (Function ''allow''))]] (?s1\<lparr>phase := BeforeLoad\<rparr>)
              = (Returns, ?s2)
            \<and> call_hook ?eb (hook_prop ''beforeLoad'' (Obj [(''beforeLoad'', Fn (Function ''deny''))]))
                (BeforeLoadArgs (match ?mb) (params ?mb)) (?s2\<lparr>pendingNavigationIndex := 1\<rparr>)
              = (Throws, ?s2)"
    using b1 b2 by (simp only: mb s2 simp_thms)
  from C3_hook_failure_keeps_tree[OF k eb nb hb, where sk = ?s2 and st = ?s2,
      THEN conjunct1, THEN mp, OF pb]
  have rb: "onNavigate ?eb (Some ''/about'') demo_options demo_state
              = (Returned BeforeLoadThrew,
                 demo_state\<lparr>navigationIndex := 1, pendingNavigationIndex := 1\<rparr>)"
    by (simp only: idle)
  have ed: "enter ?ed (Some ''/about'') demo_state = Inr (BufA, 1, ?md, ?s1)"
    by code_simp
  have hd: "hooks ?md = [Obj [(''duringLoad'', Fn (Function ''allow''))]]
                          @ Obj [(''duringLoad'', Fn (Function ''deny''))] # []"
    by (simp add: guarded_match_def)
  have d0: "beforeLoad_loop ?ed 1 (view ''About'') [] (hooks ?md)
              (demo_state\<lparr>navigationIndex := 1, phase := BeforeLoad\<rparr>) = (Returns, ?s2)"
    by code_simp
  have st: "\<not> env_stack ?ed ''beforeLoad''"
    by (simp add: guarded_env_def demo_env_def)
  have ni: "navigationIndex ?s2 = 1" by simp
  have lp: "?l\<lparr>pendingNavigationIndex := 1\<rparr> = ?l"
    by (simp add: loading_def Let_def split: prod.splits)
  have d1: "duringLoad_loop ?ed 1 [Obj [(''duringLoad'', Fn (Function ''allow''))]] ?l = (Returns, ?l)"
    by code_simp
  have d2: "call_hook ?ed (hook_prop ''duringLoad'' (Obj [(''duringLoad'', Fn (Function ''deny''))]))
              (render_args ?l) ?l = (Throws, ?l)"
    by code_simp
  have lc: "cycle ?l = Transitional BA" by code_simp
  have lt: "componentTree ?l
              = \<lparr>tree_a = [], tree_b = [node_of ''Shell'' 1, node_of ''About'' 1], tree_eq = -1\<rparr>"
    by code_simp
  have pd: "beforeLoad_loop ?ed 1 (match ?md) (params ?md) (hooks ?md) (?s1\<lparr>phase := BeforeLoad\<rparr>)
              = (Returns, ?s2)
            \<and> navigationIndex ?s2 = 1
            \<and> (env_stack ?ed ''beforeLoad'' \<longrightarrow> pendingNavigationIndex ?s2 + 1 = 1)
            \<and> duringLoad_loop ?ed 1 [Obj [(''duringLoad'', Fn (Function ''allow''))]] ?l
              = (Returns, ?l)
            \<and> call_hook ?ed (hook_prop ''duringLoad'' (Obj [(''duringLoad'', Fn (Function ''deny''))]))
                (render_args (?l\<lparr>pendingNavigationIndex := 1\<rparr>)) (?l\<lparr>pendingNavigationIndex := 1\<rparr>)
              = (Throws, ?l)"
    using d0 st ni d1 d2 by (simp only: md lp simp_thms)
  note res = C3_hook_failure_keeps_tree[OF k ed nb hd, where sk = ?l and st = ?l and ?s2.0 = ?s2,
      THEN conjunct2, THEN mp, OF pd]
  have rd: "fst (onNavigate ?ed (Some ''/about'') demo_options demo_state) = Returned DuringLoadThrew"
    "componentTree (snd (onNavigate ?ed (Some ''/about'') demo_options demo_state))
       = componentTree demo_state"
    "cycle (snd (onNavigate ?ed (Some ''/about'') demo_options demo_state)) = cycle demo_state"
    "phase (snd (onNavigate ?ed (Some ''/about'') demo_options demo_state)) = Idle"
    using res by simp_all
  from k eb nb hb b1 b2 rb ed hd d0 st d1 d2 lc lt rd show ?thesis
    by (intro conjI)
qed

text \<open>
  Claim C4, as the code has it. The test of the cycle comes before the test of
  \<^verbatim>\<open>options.bypass\<close>: while the cycle is \<^verbatim>\<open>'ab'\<close> or \<^verbatim>\<open>'ba'\<close>, every call of
  \<^verbatim>\<open>onNavigate\<close>, with or without \<^verbatim>\<open>bypass\<close>, ends before a ticket is taken, before the
  matcher runs and before the history and location step; nothing of the state changes
  but, at most, the first-boot flag. With a route table and no rendering in process
  the call returns at one of the two guards, otherwise it throws.
\<close>

theorem C4_transitional_cycle_rejects_every_navigation:
  assumes "cycle s = Transitional d"
  shows "snd (onNavigate e path opts s)
           = s\<lparr>firstBoot := firstBoot (snd (onNavigate e path opts s))\<rparr>
       \<and> (fst (onNavigate e path opts s) = Returned HmrGuard
          \<or> fst (onNavigate e path opts s) = Returned CycleGuard
          \<or> fst (onNavigate e path opts s) = Threw ViewsEmpty
          \<or> fst (onNavigate e path opts s) = Threw StillRendering)
       \<and> (env_views e \<noteq> None \<and> env_views e \<noteq> Some [] \<and> \<not> isRendering s \<longrightarrow>
            fst (onNavigate e path opts s) = Returned HmrGuard
            \<or> fst (onNavigate e path opts s) = Returned CycleGuard)"
  using assms by (simp add: onNavigate_def enter_def Let_def)

text \<open>
  The theorem in the small application, for a navigation to \<^verbatim>\<open>/about\<close> with
  \<^verbatim>\<open>bypass\<close> while the cycle is \<^verbatim>\<open>'ab'\<close>: it returns at the guard of the cycle with the
  state it was given.
\<close>

theorem C4_transitional_cycle_rejects_every_navigation_witness:
  "cycle (demo_state\<lparr>cycle := Transitional AB\<rparr>) = Transitional AB
   \<and> snd (onNavigate (demo_env ''beforeLoad'') (Some ''/about'') (demo_options\<lparr>o_bypass := True\<rparr>)
            (demo_state\<lparr>cycle := Transitional AB\<rparr>))
       = demo_state\<lparr>cycle := Transitional AB\<rparr>
   \<and> fst (onNavigate (demo_env ''beforeLoad'') (Some ''/about'') (demo_options\<lparr>o_bypass := True\<rparr>)
            (demo_state\<lparr>cycle := Transitional AB\<rparr>))
       = Returned CycleGuard"
proof -
  let ?s = "demo_state\<lparr>cycle := Transitional AB\<rparr>"
  let ?r = "onNavigate (demo_env ''beforeLoad'') (Some ''/about'') (demo_options\<lparr>o_bypass := True\<rparr>) ?s"
  have h: "cycle ?s = Transitional AB" by simp
  have v: "env_views (demo_env ''beforeLoad'') \<noteq> None
           \<and> env_views (demo_env ''beforeLoad'') \<noteq> Some [] \<and> \<not> isRendering ?s"
    by (simp add: demo_env_def demo_table_def demo_state_def nav_init_def)
  have nh: "fst ?r \<noteq> Returned HmrGuard"
    by (simp add: onNavigate_def enter_def Let_def)
  have fb: "firstBoot (snd ?r) = firstBoot ?s"
    by (simp add: onNavigate_def enter_def Let_def)
  from C4_transitional_cycle_rejects_every_navigation[OF h, of "demo_env ''beforeLoad''"
      "Some ''/about''" "demo_options\<lparr>o_bypass := True\<rparr>"] v nh
  have "snd ?r = ?s\<lparr>firstBoot := firstBoot (snd ?r)\<rparr>" and g: "fst ?r = Returned CycleGuard"
    by blast+
  then have "snd ?r = ?s" using fb by simp
  with h g show ?thesis by simp
qed

text \<open>
  Claim C4 as stated fails for the bypass navigation: started while the cycle is
  \<^verbatim>\<open>'ab'\<close> it is rejected at the guard and makes no call to the history, where the same
  navigation started from the stable cycle reaches the history and location step.
\<close>

theorem C4_counterexample:
  "onNavigate (demo_env ''beforeLoad'') (Some ''/about'') (demo_options\<lparr>o_bypass := True\<rparr>)
      (demo_state\<lparr>cycle := Transitional AB\<rparr>)
     = (Returned CycleGuard, demo_state\<lparr>cycle := Transitional AB\<rparr>)
   \<and> calls (browser (demo_state\<lparr>cycle := Transitional AB\<rparr>)) = []
   \<and> calls (browser (snd (onNavigate (demo_env ''beforeLoad'') (Some ''/about'')
                            (demo_options\<lparr>o_bypass := True\<rparr>) demo_state)))
       = [PushState None ''/about'', ScrollTo ScrollUndefined]"
  by code_simp

text \<open>
  Claim C10. \<^verbatim>\<open>navigate\<close> with a number adds the call \<^verbatim>\<open>history.go(n)\<close> to the calls
  made to the browser and returns; the tree, the cycle, the phase, the parameters and
  the ticket counter are untouched, and neither the route table nor any hook of the
  environment has a part in the result.
\<close>

theorem C10_numeric_navigate_only_history_go:
  "navigate e (Delta n) opts s
     = (Returned HistoryGo, s\<lparr>browser := (browser s)\<lparr>calls := calls (browser s) @ [Go n]\<rparr>\<rparr>)
   \<and> componentTree (snd (navigate e (Delta n) opts s)) = componentTree s
   \<and> cycle (snd (navigate e (Delta n) opts s)) = cycle s
   \<and> phase (snd (navigate e (Delta n) opts s)) = phase s
   \<and> params_value (snd (navigate e (Delta n) opts s)) = params_value s
   \<and> navigationIndex (snd (navigate e (Delta n) opts s)) = navigationIndex s
   \<and> navigate e (Delta n) opts s = navigate e' (Delta n) opts' s"
  by simp

section \<open>The round trip through path construction and matching\<close>

subsection \<open>Splitting and joining\<close>

lemma slashes_simps [simp]: "slashes [] = []" "slashes (x # xs) = CHR ''/'' # x @ slashes xs"
  by (simp_all add: slashes_def)



lemma splitOn_nonempty [simp]: "splitOn c s \<noteq> []"
  by (induction s) (auto split: list.splits)





lemma slashes_nonempty: "xs \<noteq> [] \<Longrightarrow> slashes xs \<noteq> []"
  by (cases xs) auto








subsection \<open>The scan of the key of a level\<close>

lemma startsWith_colon [simp]: "startsWith (CHR '':'' # n) '':''"
  by (simp add: startsWith_def)

lemma not_paren_colon [simp]: "\<not> startsWith (CHR '':'' # n) ''(''"
  by (simp add: startsWith_def)










subsection \<open>The candidates before the key\<close>

lemma push_keep_params [simp]:
  "params (push_layout views st) = params st" "params (push_hooks views st) = params st"
  by (simp_all add: push_layout_def push_hooks_def)









subsection \<open>Substitution by \<^verbatim>\<open>constructPath\<close>\<close>


lemma split_at_first_skip:
  "CHR '':'' \<notin> set x \<Longrightarrow>
   split_at_first (CHR '':'' # k) (x @ R)
     = map_option (\<lambda>(b, a). (x @ b, a)) (split_at_first (CHR '':'' # k) R)"
proof (induction x)
  case Nil
  show ?case by (cases "split_at_first (CHR '':'' # k) R") auto
next
  case (Cons c x)
  then show ?case
    by (cases "split_at_first (CHR '':'' # k) R") (auto simp: option.map_comp comp_def)
qed



lemma slashes_append [simp]: "slashes (xs @ ys) = slashes xs @ slashes ys"
  by (simp add: slashes_def)




lemma names_append [simp]: "names (xs @ ys) = names xs @ names ys"
  by (induction xs rule: names.induct) auto



lemma fill_Nil [simp]: "fill [] = render"
proof
  fix g show "fill [] g = render g" by (cases g) auto
qed





subsection \<open>The matcher on the constructed path\<close>

















section \<open>Properties of the active-path matcher\<close>

text \<open>
  With \<^verbatim>\<open>params\<close> the result is the comparison of the location with the constructed
  path, whether or not the pattern has a colon.
\<close>

lemma replace_without_colon: "CHR '':'' \<notin> set s \<Longrightarrow> replace s (CHR '':'' # k) v = s"
  using split_at_first_skip[of s k "[]"] by (simp add: replace_def)

lemma constructPath_without_colon:
  "CHR '':'' \<notin> set s \<Longrightarrow> constructPath s ps = s"
proof (cases ps)
  case None
  then show ?thesis by (simp add: constructPath_def)
next
  case (Some kvs)
  assume "CHR '':'' \<notin> set s"
  then have "foldl (\<lambda>result (key, v). replace result (CHR '':'' # key) v) s kvs = s"
    by (induction kvs) (auto simp: replace_without_colon)
  with Some show ?thesis by (simp add: constructPath_def)
qed

lemma isActive_with_params:
  "isActive current pathname (Some kvs) = Inr (current = constructPath pathname (Some kvs))"
  "isActive_startsWith current pathname (Some kvs)
     = Inr (startsWith current (constructPath pathname (Some kvs)))"
  by (simp_all add: isActive_def isActive_startsWith_def compare_def includesChar_def
        constructPath_without_colon)

text \<open>
  Claim C8 without \<^verbatim>\<open>params\<close>: the loop of \<^verbatim>\<open>compare\<close> tests for a colon the segment
  of the location, not the one of the pattern, and returns at the first segment it
  compares. At the location \<^verbatim>\<open>/42/edit\<close> the pattern \<^verbatim>\<open>/:id/edit\<close> is not active, and
  the pattern \<^verbatim>\<open>/users/:id\<close> is active at \<^verbatim>\<open>/users\<close> and at \<^verbatim>\<open>/users/42/edit\<close>.
\<close>

theorem C8_pattern_segment_not_wild:
  "isActive ''/42/edit'' ''/:id/edit'' None = Inr False
   \<and> isActive ''/users'' ''/users/:id'' None = Inr True
   \<and> isActive ''/users/42/edit'' ''/users/:id'' None = Inr True
   \<and> isActive_startsWith ''/42/edit'' ''/:id/edit'' None = Inr False"
  by code_simp

end
